theory Spec2Isabelle
  imports Main "HOL-Library.Sublist"
begin

section \<open>Recipient management of the password store (pkg/action/recipients.go)\<close>

text \<open>
  The file under verification holds the recipient commands of the store: printing the
  expiration of the recipients' keys, adding and removing recipients, and re-trusting the
  recipient lists of all mounted stores. Everything the commands call outside the file
  (the store tree, the crypto backend, the configuration, the terminal) is a field of the
  record \<open>env\<close>: the theorems hold for every behaviour of those collaborators.
\<close>

subsection \<open>Values\<close>

text \<open>
  A \<open>time.Time\<close> is the number of nanoseconds since Go's zero time (so \<open>IsZero\<close> is
  \<open>t = 0\<close>); a \<open>time.Duration\<close> is a number of nanoseconds in the int64 range.
\<close>

type_synonym time = int
type_synonym duration = int

text \<open>
  Go \<open>error\<close> values handed out by the collaborators. The only identity the file tests
  is the sentinel \<open>sub.ErrRecipientChecksumChanged\<close>.
\<close>

datatype err = ErrRecipientChecksumChanged | Err string

datatype exit_code = ExitUnknown | ExitList | ExitRecipients | ExitAborted

text \<open>
  What a command returns when it does not return \<open>nil\<close>: an \<open>ExitError\<close> with its exit
  code, its cause and its rendered message; a collaborator's error returned as it is; the
  two errors made with \<open>errors.New\<close> in \<open>RecipientsPrintExpiration\<close>; a runtime panic
  (a method called on a nil backend, an index out of range).
\<close>

datatype failure =
    ExitError exit_code "err option" string
  | Returned err
  | ExpirationErr
  | NilCryptoErr
  | Panic

text \<open>
  What a run does that can be observed, in order: lines written with \<open>out.Cyan\<close>,
  \<open>out.Green\<close>, \<open>out.Print\<close> and to \<open>stdout\<close>, the prompts with the operator's
  answers, and the calls that read a key's expiration, resolve a sub store or change a
  recipient list, with the error they returned.
\<close>

datatype event =
    EvCyan string
  | EvGreen string
  | EvPrint string
  | EvStdout string
  | EvConfirm string bool
  | EvAskStore string
  | EvSelect string "string list" string int
  | EvExpirationLookup string
  | EvGetSubStore string
  | EvAdd string string "err option"
  | EvRemove string string "err option"
  | EvSet string "string list" "err option"

subsection \<open>The collaborators\<close>

text \<open>
  \<open>'w\<close> is the state of everything persistent (stores, configuration, keyring), \<open>'c\<close> a
  crypto backend, \<open>'s\<close> a sub store. Queries read the state; \<open>AddRecipient\<close>,
  \<open>RemoveRecipient\<close> and \<open>SetRecipients\<close> return the new one. A call that returns
  \<open>(value, error)\<close> and whose value is not read on error is a sum; \<open>GetRecipients\<close>,
  whose list is read together with the checksum error, is a pair. The operator's answers
  may depend on everything that happened before the prompt. \<open>Now k\<close> is the \<open>k\<close>-th
  reading of the wall clock in a run. \<open>ByPathLen\<close> is the key that \<open>store.ByPathLen\<close>
  orders mount points by; \<open>FormatTime\<close>, \<open>FormatDuration\<close> and \<open>ErrorText\<close> are the
  \<open>String()\<close> and \<open>Error()\<close> methods used by the format verb \<open>%s\<close>.
\<close>

record ('w, 'c, 's) env =
  Crypto :: "'w \<Rightarrow> string \<Rightarrow> 'c option"
  ListRecipients :: "'w \<Rightarrow> string \<Rightarrow> string list"
  AddRecipient :: "'w \<Rightarrow> string \<Rightarrow> string \<Rightarrow> err option \<times> 'w"
  RemoveRecipient :: "'w \<Rightarrow> string \<Rightarrow> string \<Rightarrow> err option \<times> 'w"
  MountPoints :: "'w \<Rightarrow> string list"
  GetSubStore :: "'w \<Rightarrow> string \<Rightarrow> err + 's option"
  GetRecipients :: "'w \<Rightarrow> 's \<Rightarrow> string list \<times> err option"
  SetRecipients :: "'w \<Rightarrow> 's \<Rightarrow> string list \<Rightarrow> err option \<times> 'w"
  SubCrypto :: "'s \<Rightarrow> 'c"
  IDFile :: "'c \<Rightarrow> string"
  GetRecipientHash :: "'w \<Rightarrow> string \<Rightarrow> string \<Rightarrow> string"
  FindPublicKeys :: "'w \<Rightarrow> 'c \<Rightarrow> string list \<Rightarrow> err + string list"
  FindPrivateKeys :: "'w \<Rightarrow> 'c \<Rightarrow> string \<Rightarrow> err + string list"
  Fingerprint :: "'w \<Rightarrow> 'c \<Rightarrow> string \<Rightarrow> string"
  FormatKey :: "'w \<Rightarrow> 'c \<Rightarrow> string \<Rightarrow> string"
  ExpirationDateFromKey :: "'w \<Rightarrow> 'c \<Rightarrow> string \<Rightarrow> err + time"
  NameFromKey :: "'w \<Rightarrow> 'c \<Rightarrow> string \<Rightarrow> string"
  AskForConfirmation :: "event list \<Rightarrow> string \<Rightarrow> bool"
  AskForStore :: "event list \<Rightarrow> string"
  GetSelection :: "event list \<Rightarrow> string \<Rightarrow> string list \<Rightarrow> string \<times> int"
  Now :: "nat \<Rightarrow> time"
  ByPathLen :: "string \<Rightarrow> nat"
  FormatTime :: "time \<Rightarrow> string"
  FormatDuration :: "duration \<Rightarrow> string"
  ErrorText :: "err \<Rightarrow> string"

subsection \<open>Formatting\<close>

definition quoted :: "string \<Rightarrow> string" where
  "quoted s = CHR 0x27 # s @ [CHR 0x27]"

fun showNat :: "nat \<Rightarrow> string" where
  "showNat n =
     (if n < 10 then [char_of (48 + n)]
      else showNat (n div 10) @ [char_of (48 + n mod 10)])"

declare showNat.simps [simp del]

subsection \<open>renderExpirationNotice\<close>

definition Hour :: duration where
  "Hour = 3600000000000"

definition minDuration :: duration where
  "minDuration = - (2 ^ 63)"

definition maxDuration :: duration where
  "maxDuration = 2 ^ 63 - 1"

text \<open>\<open>t.Sub(u)\<close>: the difference, saturated at the ends of the int64 range.\<close>

definition Sub :: "time \<Rightarrow> time \<Rightarrow> duration" where
  "Sub t u =
     (let d = t - u
      in if d < minDuration then minDuration
         else if maxDuration < d then maxDuration
         else d)"

text \<open>\<open>d.Truncate(m)\<close> is \<open>d - d % m\<close> for \<open>m > 0\<close>; Go's \<open>%\<close> truncates towards zero.\<close>

definition Truncate :: "duration \<Rightarrow> duration \<Rightarrow> duration" where
  "Truncate d m = (if m \<le> 0 then d else d - sgn d * (\<bar>d\<bar> mod m))"

text \<open>
  The function reads the clock once for \<open>After\<close>, once more for \<open>Add\<close> and a third
  time in \<open>time.Until\<close>: it takes the index \<open>k\<close> of the next reading and returns the
  notice, the flag and the index after its readings.
\<close>

definition renderExpirationNotice ::
  "('w, 'c, 's) env \<Rightarrow> nat \<Rightarrow> time \<Rightarrow> duration \<Rightarrow> string \<times> bool \<times> nat" where
  "renderExpirationNotice env k expirationDate warnThreshold =
     (if expirationDate \<noteq> 0 then
        if expirationDate < Now env k then
          (''expired at '' @ FormatTime env expirationDate, True, k + 1)
        else if expirationDate < Now env (k + 1) + warnThreshold then
          (''expiring in ~''
             @ FormatDuration env (Truncate (Sub expirationDate (Now env (k + 2))) Hour)
             @ '' at '' @ FormatTime env expirationDate, True, k + 3)
        else ('''', False, k + 2)
      else ('''', False, k))"

subsection \<open>RecipientsPrintExpiration\<close>

text \<open>
  The loop over the recipients of the store: \<open>k\<close> is the index of the next clock reading,
  \<open>hasErr\<close> the flag. It returns the events and either the error of the first failed
  lookup or the flag after the last recipient.
\<close>

fun expirationLoop ::
  "('w, 'c, 's) env \<Rightarrow> 'w \<Rightarrow> 'c \<Rightarrow> duration \<Rightarrow> nat \<Rightarrow> bool \<Rightarrow> string list
     \<Rightarrow> event list \<times> (failure + bool)" where
  "expirationLoop env w crypto warnThreshold k hasErr [] = ([], Inr hasErr)"
| "expirationLoop env w crypto warnThreshold k hasErr (recipient # rest) =
     (let r = ''0x'' @ recipient
      in case ExpirationDateFromKey env w crypto recipient of
           Inl e \<Rightarrow> ([EvExpirationLookup recipient], Inl (Returned e))
         | Inr expiration \<Rightarrow>
             (let name = NameFromKey env w crypto recipient;
                  (notice, warn, k') = renderExpirationNotice env k expiration warnThreshold
              in if warn then
                   (let (evs, res) = expirationLoop env w crypto warnThreshold k' True rest
                    in (EvExpirationLookup recipient
                          # EvStdout (r @ '' ('' @ name @ '') '' @ notice @ [CHR 0x0A])
                          # evs, res))
                 else
                   (let (evs, res) = expirationLoop env w crypto warnThreshold k' hasErr rest
                    in (EvExpirationLookup recipient # evs, res))))"

definition RecipientsPrintExpiration ::
  "('w, 'c, 's) env \<Rightarrow> 'w \<Rightarrow> string \<Rightarrow> duration \<Rightarrow> event list \<times> (failure + unit)" where
  "RecipientsPrintExpiration env w store warnThreshold =
     (case Crypto env w store of
        None \<Rightarrow> ([], Inl NilCryptoErr)
      | Some crypto \<Rightarrow>
          (case expirationLoop env w crypto warnThreshold 0 False (ListRecipients env w store) of
             (evs, Inl f) \<Rightarrow> (evs, Inl f)
           | (evs, Inr hasErr) \<Rightarrow> (evs, if hasErr then Inl ExpirationErr else Inr ())))"

text \<open>The recipients whose expiration was looked up, and the lines printed, in order.\<close>

fun examined :: "event list \<Rightarrow> string list" where
  "examined [] = []"
| "examined (EvExpirationLookup r # evs) = r # examined evs"
| "examined (_ # evs) = examined evs"

fun warned :: "event list \<Rightarrow> string list" where
  "warned [] = []"
| "warned (EvStdout l # evs) = l # warned evs"
| "warned (_ # evs) = warned evs"

subsection \<open>Interactive selection\<close>

text \<open>\<open>ids[sel]\<close>: an index outside the slice is a runtime panic.\<close>

definition index :: "string list \<Rightarrow> int \<Rightarrow> failure + string" where
  "index ids sel =
     (if 0 \<le> sel \<and> sel < int (length ids) then Inr (ids ! nat sel) else Inl Panic)"

definition userAborted :: failure where
  "userAborted = ExitError ExitAborted None ''user aborted''"

text \<open>
  Both selection functions take the events so far (the operator has seen them) and
  return the event of the selection, if one was shown, and the chosen recipients or the
  failure. The help line passed to \<open>cui.GetSelection\<close> is a constant and is left out.
  \<open>crypto.FormatKey\<close> on a nil backend panics; with no recipient to format it is not
  called.
\<close>

definition recipientsSelectForRemoval ::
  "('w, 'c, 's) env \<Rightarrow> event list \<Rightarrow> 'w \<Rightarrow> string \<Rightarrow> event list \<times> (failure + string list)" where
  "recipientsSelectForRemoval env hist w store =
     (let crypto = Crypto env w store;
          ids = ListRecipients env w store
      in if ids = [] then ([], Inr [])
         else case crypto of
                None \<Rightarrow> ([], Inl Panic)
              | Some c \<Rightarrow>
                  (let choices = map (FormatKey env w c) ids;
                       (act, sel) = GetSelection env hist ''Remove recipient -'' choices;
                       ev = [EvSelect ''Remove recipient -'' choices act sel]
                   in if act = ''default'' \<or> act = ''show'' then
                        (case index ids sel of
                           Inl f \<Rightarrow> (ev, Inl f)
                         | Inr chosen \<Rightarrow> (ev, Inr [chosen]))
                      else (ev, Inl userAborted)))"

text \<open>
  \<open>kl, _ := crypto.FindPublicKeys(ctx)\<close>: the error is dropped, and on error the list is
  nil.
\<close>

definition recipientsSelectForAdd ::
  "('w, 'c, 's) env \<Rightarrow> event list \<Rightarrow> 'w \<Rightarrow> string \<Rightarrow> event list \<times> (failure + string list)" where
  "recipientsSelectForAdd env hist w store =
     (case Crypto env w store of
        None \<Rightarrow> ([], Inl Panic)
      | Some c \<Rightarrow>
          (let kl = (case FindPublicKeys env w c [] of Inl e \<Rightarrow> [] | Inr ks \<Rightarrow> ks);
               choices = map (FormatKey env w c) kl
           in if length choices < 1 then ([], Inr [])
              else
                (let (act, sel) = GetSelection env hist ''Add Recipient -'' choices;
                     ev = [EvSelect ''Add Recipient -'' choices act sel]
                 in if act = ''default'' \<or> act = ''show'' then
                      (case index kl sel of
                         Inl f \<Rightarrow> (ev, Inl f)
                       | Inr key \<Rightarrow> (ev, Inr [key]))
                    else (ev, Inl userAborted))))"

subsection \<open>Resolving a recipient to a fingerprint\<close>

definition noMatchWarning :: "string \<Rightarrow> event list" where
  "noMatchWarning r =
     [EvCyan (''Warning: No matching valid key found. If the key is in your keyring ''
                @ ''you may need to validate it.''),
      EvCyan (''If this is your key: gpg --edit-key '' @ r
                @ ''; trust (set to ultimate); quit''),
      EvCyan (''If this is not your key: gpg --edit-key '' @ r
                @ ''; lsign; trust; save; quit''),
      EvCyan (''You may need to run '' @ quoted ''gpg --update-trustdb'' @ '' afterwards'')]"

text \<open>
  Lines 133 to 152 of \<open>RecipientsAdd\<close> and, word for word, lines 205 to 224 of
  \<open>RecipientsRemove\<close>: the lookup of the public keys of \<open>r\<close> and the choice of the
  recipient \<open>recp\<close>. \<open>None\<close> is the \<open>continue\<close> of the loop.
\<close>

definition resolveRecipient ::
  "('w, 'c, 's) env \<Rightarrow> 'w \<Rightarrow> 'c \<Rightarrow> bool \<Rightarrow> string \<Rightarrow> event list \<times> string option" where
  "resolveRecipient env w crypto force r =
     (let (ev, keys, go) =
            (case FindPublicKeys env w crypto [r] of
               Inl e \<Rightarrow>
                 ([EvCyan (''WARNING: Failed to list public key '' @ quoted r @ '': ''
                             @ ErrorText env e)],
                  [r], force)
             | Inr ks \<Rightarrow> ([], ks, True))
      in if \<not> go then (ev, None)
         else if length keys < 1 \<and> \<not> force then (ev @ noMatchWarning r, None)
         else (ev, Some (if length keys > 0 then Fingerprint env w crypto (hd keys) else r)))"

subsection \<open>RecipientsAdd\<close>

text \<open>
  Lines 115 to 118 of \<open>RecipientsAdd\<close> and 178 to 181 of \<open>RecipientsRemove\<close>: without
  the flag \<open>store\<close> the operator is asked for the store, before anything else happened.
\<close>

definition selectStore :: "('w, 'c, 's) env \<Rightarrow> string \<Rightarrow> event list \<times> string" where
  "selectStore env storeFlag =
     (if storeFlag = [] then (let s = AskForStore env [] in ([EvAskStore s], s))
      else ([], storeFlag))"

text \<open>What one turn of a loop does: \<open>continue\<close>, count one more, or return.\<close>

datatype outcome = Skipped | Committed | Aborted failure

definition addPrompt :: "('w, 'c, 's) env \<Rightarrow> 'w \<Rightarrow> 'c \<Rightarrow> string \<Rightarrow> string \<Rightarrow> string" where
  "addPrompt env w crypto recp store =
     ''Do you want to add '' @ quoted (FormatKey env w crypto recp)
       @ '' as a recipient to the store '' @ quoted store @ ''?''"

definition addStep ::
  "('w, 'c, 's) env \<Rightarrow> string \<Rightarrow> 'c \<Rightarrow> bool \<Rightarrow> event list \<Rightarrow> 'w \<Rightarrow> string
     \<Rightarrow> event list \<times> 'w \<times> outcome" where
  "addStep env store crypto force hist w r =
     (let (ev1, resolved) = resolveRecipient env w crypto force r
      in case resolved of
           None \<Rightarrow> (ev1, w, Skipped)
         | Some recp \<Rightarrow>
             (let prompt = addPrompt env w crypto recp store;
                  ans = AskForConfirmation env (hist @ ev1) prompt;
                  ev2 = ev1 @ [EvConfirm prompt ans]
              in if \<not> ans then (ev2, w, Skipped)
                 else
                   (let (e, w') = AddRecipient env w store recp;
                        ev3 = ev2 @ [EvAdd store recp e]
                    in case e of
                         Some x \<Rightarrow>
                           (ev3, w',
                            Aborted (ExitError ExitRecipients (Some x)
                              (''failed to add recipient '' @ quoted r @ '': ''
                                 @ ErrorText env x)))
                       | None \<Rightarrow> (ev3, w', Committed))))"

text \<open>
  The \<open>for\<close> loop. The backend is what \<open>s.Store.Crypto\<close> returned: when it is nil, the
  first turn panics in \<open>crypto.FindPublicKeys\<close>.
\<close>

fun addLoop ::
  "('w, 'c, 's) env \<Rightarrow> string \<Rightarrow> 'c option \<Rightarrow> bool \<Rightarrow> event list \<Rightarrow> 'w \<Rightarrow> nat
     \<Rightarrow> string list \<Rightarrow> event list \<times> 'w \<times> (failure + nat)" where
  "addLoop env store crypto force hist w added [] = ([], w, Inr added)"
| "addLoop env store crypto force hist w added (r # rs) =
     (case crypto of
        None \<Rightarrow> ([], w, Inl Panic)
      | Some c \<Rightarrow>
          (case addStep env store c force hist w r of
             (evs, w', Aborted f) \<Rightarrow> (evs, w', Inl f)
           | (evs, w', Skipped) \<Rightarrow>
               (let (evs', w'', res) = addLoop env store crypto force (hist @ evs) w' added rs
                in (evs @ evs', w'', res))
           | (evs, w', Committed) \<Rightarrow>
               (let (evs', w'', res) =
                      addLoop env store crypto force (hist @ evs) w' (added + 1) rs
                in (evs @ evs', w'', res))))"

definition noKeyAdded :: failure where
  "noKeyAdded = ExitError ExitUnknown None ''no key added''"

definition syncHint :: event where
  "syncHint = EvCyan (''You need to run '' @ quoted ''gopass sync'' @ '' to push these changes'')"

definition RecipientsAdd ::
  "('w, 'c, 's) env \<Rightarrow> 'w \<Rightarrow> string \<Rightarrow> bool \<Rightarrow> string list
     \<Rightarrow> event list \<times> 'w \<times> (failure + unit)" where
  "RecipientsAdd env w storeFlag force args =
     (let (ev0, store) = selectStore env storeFlag;
          crypto = Crypto env w store;
          (ev1, selected) =
            (if length args < 1 then recipientsSelectForAdd env ev0 w store
             else ([], Inr args))
      in case selected of
           Inl f \<Rightarrow> (ev0 @ ev1, w, Inl f)
         | Inr recipients \<Rightarrow>
             (case addLoop env store crypto force (ev0 @ ev1) w 0 recipients of
                (ev2, w', Inl f) \<Rightarrow> (ev0 @ ev1 @ ev2, w', Inl f)
              | (ev2, w', Inr added) \<Rightarrow>
                  if added < 1 then (ev0 @ ev1 @ ev2, w', Inl noKeyAdded)
                  else (ev0 @ ev1 @ ev2
                          @ [EvGreen (CHR 0x0A # ''Added '' @ showNat added @ '' recipients''),
                             syncHint],
                        w', Inr ())))"

subsection \<open>RecipientsRemove\<close>

definition removalWarning :: "string \<Rightarrow> string" where
  "removalWarning r =
     [CHR 0x0A, CHR 0x0A, CHR 0x0A]
     @ ''@@@@@@@@@@@@@@@@@@@@@@@@@@@@@@@@@@@@@@@@@@@@@@@@@@@@@@@@@@@@@@@@@@@@@@@@@@'' @ [CHR 0x0A]
     @ ''@   WARNING: REMOVING A USER WILL NOT REVOKE ACCESS FROM OLD REVISONS!   @'' @ [CHR 0x0A]
     @ ''@@@@@@@@@@@@@@@@@@@@@@@@@@@@@@@@@@@@@@@@@@@@@@@@@@@@@@@@@@@@@@@@@@@@@@@@@@'' @ [CHR 0x0A]
     @ ''THE USER '' @ r @ '' WILL STILL BE ABLE TO ACCESS ANY OLD COPY OF THE STORE AND''
     @ [CHR 0x0A]
     @ ''ANY OLD REVISION HE HAD ACCESS TO.'' @ [CHR 0x0A, CHR 0x0A]
     @ ''ANY CREDENTIALS THIS USER HAD ACCESS TO NEED TO BE CONSIDERED COMPROMISED''
     @ [CHR 0x0A]
     @ ''AND SHOULD BE REVOKED.'' @ [CHR 0x0A, CHR 0x0A]
     @ ''This feature is only meant for revoking access to any added or changed''
     @ [CHR 0x0A]
     @ ''credentials.'' @ [CHR 0x0A, CHR 0x0A]"

definition selfPrompt :: "string \<Rightarrow> string" where
  "selfPrompt r = ''Do you want to remove yourself ('' @ r @ '') from the recipients?''"

text \<open>
  Lines 196 to 203: the lookup of the operator's private keys. It returns the prompt
  event, if the operator was asked, and whether the turn goes on.
\<close>

definition selfRemovalGate ::
  "('w, 'c, 's) env \<Rightarrow> 'c \<Rightarrow> event list \<Rightarrow> 'w \<Rightarrow> string \<Rightarrow> event list \<times> bool" where
  "selfRemovalGate env crypto hist w r =
     (case FindPrivateKeys env w crypto r of
        Inl e \<Rightarrow> ([], True)
      | Inr kl \<Rightarrow>
          if length kl > 0 then
            (let ans = AskForConfirmation env hist (selfPrompt r)
             in ([EvConfirm (selfPrompt r) ans], ans))
          else ([], True))"

text \<open>Lines 205 to 230: the rest of the turn, after the gate.\<close>

definition removeCommit ::
  "('w, 'c, 's) env \<Rightarrow> string \<Rightarrow> 'c \<Rightarrow> bool \<Rightarrow> 'w \<Rightarrow> string \<Rightarrow> event list \<times> 'w \<times> outcome" where
  "removeCommit env store crypto force w r =
     (let (ev1, resolved) = resolveRecipient env w crypto force r
      in case resolved of
           None \<Rightarrow> (ev1, w, Skipped)
         | Some recp \<Rightarrow>
             (let (e, w') = RemoveRecipient env w store recp;
                  ev2 = ev1 @ [EvRemove store recp e]
              in case e of
                   Some x \<Rightarrow>
                     (ev2, w',
                      Aborted (ExitError ExitRecipients (Some x)
                        (''failed to remove recipient '' @ quoted recp @ '': ''
                           @ ErrorText env x)))
                 | None \<Rightarrow> (ev2 @ [EvStdout (removalWarning r)], w', Committed)))"

definition removeStep ::
  "('w, 'c, 's) env \<Rightarrow> string \<Rightarrow> 'c \<Rightarrow> bool \<Rightarrow> event list \<Rightarrow> 'w \<Rightarrow> string
     \<Rightarrow> event list \<times> 'w \<times> outcome" where
  "removeStep env store crypto force hist w r =
     (let (ev0, go) = selfRemovalGate env crypto hist w r
      in if \<not> go then (ev0, w, Skipped)
         else
           (let (ev1, w', out) = removeCommit env store crypto force w r
            in (ev0 @ ev1, w', out)))"

fun removeLoop ::
  "('w, 'c, 's) env \<Rightarrow> string \<Rightarrow> 'c option \<Rightarrow> bool \<Rightarrow> event list \<Rightarrow> 'w \<Rightarrow> nat
     \<Rightarrow> string list \<Rightarrow> event list \<times> 'w \<times> (failure + nat)" where
  "removeLoop env store crypto force hist w removed [] = ([], w, Inr removed)"
| "removeLoop env store crypto force hist w removed (r # rs) =
     (case crypto of
        None \<Rightarrow> ([], w, Inl Panic)
      | Some c \<Rightarrow>
          (case removeStep env store c force hist w r of
             (evs, w', Aborted f) \<Rightarrow> (evs, w', Inl f)
           | (evs, w', Skipped) \<Rightarrow>
               (let (evs', w'', res) =
                      removeLoop env store crypto force (hist @ evs) w' removed rs
                in (evs @ evs', w'', res))
           | (evs, w', Committed) \<Rightarrow>
               (let (evs', w'', res) =
                      removeLoop env store crypto force (hist @ evs) w' (removed + 1) rs
                in (evs @ evs', w'', res))))"

definition noKeyRemoved :: failure where
  "noKeyRemoved = ExitError ExitUnknown None ''no key removed''"

definition RecipientsRemove ::
  "('w, 'c, 's) env \<Rightarrow> 'w \<Rightarrow> string \<Rightarrow> bool \<Rightarrow> string list
     \<Rightarrow> event list \<times> 'w \<times> (failure + unit)" where
  "RecipientsRemove env w storeFlag force args =
     (let (ev0, store) = selectStore env storeFlag;
          crypto = Crypto env w store;
          (ev1, selected) =
            (if length args < 1 then recipientsSelectForRemoval env ev0 w store
             else ([], Inr args))
      in case selected of
           Inl f \<Rightarrow> (ev0 @ ev1, w, Inl f)
         | Inr recipients \<Rightarrow>
             (case removeLoop env store crypto force (ev0 @ ev1) w 0 recipients of
                (ev2, w', Inl f) \<Rightarrow> (ev0 @ ev1 @ ev2, w', Inl f)
              | (ev2, w', Inr removed) \<Rightarrow>
                  if removed < 1 then (ev0 @ ev1 @ ev2, w', Inl noKeyRemoved)
                  else (ev0 @ ev1 @ ev2
                          @ [EvGreen (CHR 0x0A # ''Removed '' @ showNat removed
                                        @ '' recipients''),
                             syncHint],
                        w', Inr ())))"

subsection \<open>RecipientsUpdate\<close>

text \<open>
  \<open>sort.Sort(store.ByPathLen(mps))\<close> puts the mount points in ascending order of their
  key; the loop then ranges over \<open>append(mps, "")\<close>. (\<open>sort.Sort\<close> is not stable;
  \<open>sort_key\<close> is: no theorem below depends on the order of mount points of equal key.)
\<close>

definition storeNodes :: "('w, 'c, 's) env \<Rightarrow> 'w \<Rightarrow> string list" where
  "storeNodes env w = sort_key (ByPathLen env) (MountPoints env w) @ [[]]"

definition trustPrompt :: "string \<Rightarrow> string" where
  "trustPrompt label = ''Do you trust these recipients for '' @ label @ ''?''"

text \<open>
  One turn of the loop, for one alias. A sub store that does not resolve is skipped; a
  fetch error other than the checksum sentinel is returned; a fetch without error and
  with a recorded checksum is skipped; otherwise the list is shown and the operator is
  asked once.
\<close>

definition updateStep ::
  "('w, 'c, 's) env \<Rightarrow> event list \<Rightarrow> 'w \<Rightarrow> string \<Rightarrow> event list \<times> 'w \<times> outcome" where
  "updateStep env hist w alias =
     (case GetSubStore env w alias of
        Inl e \<Rightarrow> ([EvGetSubStore alias], w, Skipped)
      | Inr None \<Rightarrow> ([EvGetSubStore alias], w, Skipped)
      | Inr (Some subs) \<Rightarrow>
          (let (recp, err) = GetRecipients env w subs
           in if err \<noteq> None \<and> err \<noteq> Some ErrRecipientChecksumChanged then
                ([EvGetSubStore alias], w, Aborted (Returned (the err)))
              else if err = None
                      \<and> GetRecipientHash env w alias (IDFile env (SubCrypto env subs)) \<noteq> []
              then ([EvGetSubStore alias], w, Skipped)
              else
                (let label = (if alias = [] then ''<root>'' else alias);
                     ev1 = EvGetSubStore alias
                           # EvCyan (''Please confirm Recipients for '' @ label @ '':'')
                           # map (\<lambda>r. EvPrint (''- '' @ FormatKey env w (SubCrypto env subs) r))
                               recp;
                     ans = AskForConfirmation env (hist @ ev1) (trustPrompt label);
                     ev2 = ev1 @ [EvConfirm (trustPrompt label) ans]
                 in if \<not> ans then (ev2, w, Skipped)
                    else
                      (let (e, w') = SetRecipients env w subs recp;
                           ev3 = ev2 @ [EvSet alias recp e]
                       in case e of
                            Some x \<Rightarrow> (ev3, w', Aborted (Returned x))
                          | None \<Rightarrow> (ev3 @ [EvPrint []], w', Committed)))))"

fun updateLoop ::
  "('w, 'c, 's) env \<Rightarrow> event list \<Rightarrow> 'w \<Rightarrow> nat \<Rightarrow> string list
     \<Rightarrow> event list \<times> 'w \<times> (failure + nat)" where
  "updateLoop env hist w changed [] = ([], w, Inr changed)"
| "updateLoop env hist w changed (alias # rest) =
     (case updateStep env hist w alias of
        (evs, w', Aborted f) \<Rightarrow> (evs, w', Inl f)
      | (evs, w', Skipped) \<Rightarrow>
          (let (evs', w'', res) = updateLoop env (hist @ evs) w' changed rest
           in (evs @ evs', w'', res))
      | (evs, w', Committed) \<Rightarrow>
          (let (evs', w'', res) = updateLoop env (hist @ evs) w' (changed + 1) rest
           in (evs @ evs', w'', res)))"

definition RecipientsUpdate ::
  "('w, 'c, 's) env \<Rightarrow> 'w \<Rightarrow> event list \<times> 'w \<times> (failure + unit)" where
  "RecipientsUpdate env w =
     (case updateLoop env [] w 0 (storeNodes env w) of
        (evs, w', Inl f) \<Rightarrow> (evs, w', Inl f)
      | (evs, w', Inr changed) \<Rightarrow>
          if changed > 0 then
            (evs @ [EvGreen (''Updated '' @ showNat changed @ '' stores'')], w', Inr ())
          else (evs @ [EvGreen ''Nothing to do''], w', Inr ()))"

subsection \<open>Reading a run\<close>

text \<open>The aliases whose sub store the loop asked for, in the order of the turns.\<close>

fun visited :: "event list \<Rightarrow> string list" where
  "visited [] = []"
| "visited (EvGetSubStore a # evs) = a # visited evs"
| "visited (_ # evs) = visited evs"


text \<open>The prompts of a run, and the recipient changes that went through or failed.\<close>

fun isConfirm :: "event \<Rightarrow> bool" where
  "isConfirm (EvConfirm p a) = True"
| "isConfirm _ = False"

fun isCommit :: "event \<Rightarrow> bool" where
  "isCommit (EvAdd s r None) = True"
| "isCommit (EvRemove s r None) = True"
| "isCommit (EvSet a rs None) = True"
| "isCommit _ = False"

fun isFailedCommit :: "event \<Rightarrow> bool" where
  "isFailedCommit (EvAdd s r (Some e)) = True"
| "isFailedCommit (EvRemove s r (Some e)) = True"
| "isFailedCommit (EvSet a rs (Some e)) = True"
| "isFailedCommit _ = False"

fun isWrite :: "event \<Rightarrow> bool" where
  "isWrite (EvAdd s r e) = True"
| "isWrite (EvRemove s r e) = True"
| "isWrite (EvSet a rs e) = True"
| "isWrite _ = False"

definition commits :: "event list \<Rightarrow> nat" where
  "commits evs = length (filter isCommit evs)"

text \<open>
  The condition of lines 197 and 198: the lookup of the private keys returned no error
  and at least one key.
\<close>

definition ownKey :: "('w, 'c, 's) env \<Rightarrow> 'w \<Rightarrow> 'c \<Rightarrow> string \<Rightarrow> bool" where
  "ownKey env w crypto r =
     (case FindPrivateKeys env w crypto r of Inl e \<Rightarrow> False | Inr kl \<Rightarrow> length kl > 0)"

subsection \<open>Summaries of a turn, a loop and a command\<close>

text \<open>
  A turn of either loop counts exactly its successful change, returns exactly when a
  change failed, and then with the exit code of the recipients.
\<close>

definition turnSummary :: "event list \<Rightarrow> outcome \<Rightarrow> bool" where
  "turnSummary evs out \<longleftrightarrow>
     length (filter isWrite evs) \<le> 1 \<and> length (filter isConfirm evs) \<le> 1
     \<and> (case out of
          Skipped \<Rightarrow> commits evs = 0 \<and> filter isFailedCommit evs = []
        | Committed \<Rightarrow> commits evs = 1 \<and> filter isFailedCommit evs = []
        | Aborted f \<Rightarrow> commits evs = 0 \<and> filter isFailedCommit evs \<noteq> []
                        \<and> (\<exists>x m. f = ExitError ExitRecipients (Some x) m))"

text \<open>The loops: the counter after the loop is the counter before it plus the changes
  that went through; a loop that returns early panicked on a nil backend or saw a change
  fail.\<close>

definition loopSummary :: "nat \<Rightarrow> nat \<Rightarrow> event list \<Rightarrow> failure + nat \<Rightarrow> bool" where
  "loopSummary n len evs res \<longleftrightarrow>
     length (filter isWrite evs) \<le> len \<and> length (filter isConfirm evs) \<le> len
     \<and> (case res of
          Inr m \<Rightarrow> m = n + commits evs \<and> filter isFailedCommit evs = []
        | Inl f \<Rightarrow> f = Panic
                    \<or> (filter isFailedCommit evs \<noteq> []
                        \<and> (\<exists>x m. f = ExitError ExitRecipients (Some x) m)))"

text \<open>
  The four ways a command can end: the panic on a nil backend, the escape from the
  selection, a change that failed in the storage layer, or the test of the counter.
\<close>

definition commandSummary ::
  "nat \<Rightarrow> failure \<Rightarrow> event list \<Rightarrow> failure + unit \<Rightarrow> bool" where
  "commandSummary len noKey evs res \<longleftrightarrow>
     length (filter isWrite evs) \<le> len \<and> length (filter isConfirm evs) \<le> len
     \<and> (res = Inl Panic \<or> res = Inl userAborted
          \<or> (filter isFailedCommit evs \<noteq> []
               \<and> (\<exists>x m. res = Inl (ExitError ExitRecipients (Some x) m)))
          \<or> (filter isFailedCommit evs = []
               \<and> res = (if commits evs = 0 then Inl noKey else Inr ())))"

subsection \<open>A small store for the worked examples\<close>

text \<open>
  One store whose state is its recipient list, the mount points \<open>teamA/sub\<close> and
  \<open>teamA\<close>, no checksum
  recorded, a keyring that knows every name but \<open>nobody\<close>, an operator who owns the key
  \<open>me\<close> and answers yes, and a storage layer that refuses the fingerprint \<open>FP:bad\<close>.
\<close>

definition demoEnv :: "(string list, unit, string) env" where
  "demoEnv =
     \<lparr> Crypto = (\<lambda>w store. Some ()),
       ListRecipients = (\<lambda>w store. w),
       AddRecipient = (\<lambda>w store recp.
          if recp = ''FP:bad'' then (Some (Err ''disk full''), w) else (None, w @ [recp])),
       RemoveRecipient = (\<lambda>w store recp. (None, removeAll recp w)),
       MountPoints = (\<lambda>w. [''teamA/sub'', ''teamA'']),
       GetSubStore = (\<lambda>w alias. Inr (Some alias)),
       GetRecipients = (\<lambda>w subs. (w, None)),
       SetRecipients = (\<lambda>w subs recp. (None, recp)),
       SubCrypto = (\<lambda>subs. ()),
       IDFile = (\<lambda>c. ''.gpg-id''),
       GetRecipientHash = (\<lambda>w alias idfile. []),
       FindPublicKeys = (\<lambda>w c query.
          case query of
            [] \<Rightarrow> Inr [''alice'', ''bob'']
          | r # _ \<Rightarrow> if r = ''nobody'' then Inr [] else Inr [r]),
       FindPrivateKeys = (\<lambda>w c r. if r = ''me'' then Inr [''me''] else Inr []),
       Fingerprint = (\<lambda>w c k. ''FP:'' @ k),
       FormatKey = (\<lambda>w c k. k),
       ExpirationDateFromKey = (\<lambda>w c r.
          if r = ''broken'' then Inl (Err ''no such key'')
          else if r = ''old'' then Inr 50 else Inr 0),
       NameFromKey = (\<lambda>w c r. r),
       AskForConfirmation = (\<lambda>hist prompt. True),
       AskForStore = (\<lambda>hist. ''vault''),
       GetSelection = (\<lambda>hist title choices. (''default'', 0)),
       Now = (\<lambda>k. 100),
       ByPathLen = length,
       FormatTime = (\<lambda>t. ''T''),
       FormatDuration = (\<lambda>d. ''D''),
       ErrorText = (\<lambda>e. case e of Err s \<Rightarrow> s | ErrRecipientChecksumChanged \<Rightarrow> ''checksum'') \<rparr>"

text \<open>The same store with an operator who declines every prompt.\<close>

definition decliningEnv :: "(string list, unit, string) env" where
  "decliningEnv = demoEnv \<lparr> AskForConfirmation := (\<lambda>hist prompt. False) \<rparr>"

text \<open>The declining operator, and a root store whose recipients cannot be read.\<close>

definition brokenRootEnv :: "(string list, unit, string) env" where
  "brokenRootEnv =
     decliningEnv \<lparr> GetRecipients :=
       (\<lambda>w subs. if subs = [] then ([], Some (Err ''read error'')) else (w, None)) \<rparr>"

text \<open>The same store at the instant 50, at which the key \<open>old\<close> expires.\<close>

definition noonEnv :: "(string list, unit, string) env" where
  "noonEnv = demoEnv \<lparr> Now := (\<lambda>k. 50) \<rparr>"

text \<open>The same store with a keyring whose private keys cannot be listed.\<close>

definition lockedEnv :: "(string list, unit, string) env" where
  "lockedEnv = demoEnv \<lparr> FindPrivateKeys := (\<lambda>w c r. Inl (Err ''keyring locked'')) \<rparr>"

text \<open>The same store with an operator who leaves every selection with escape.\<close>

definition escapingEnv :: "(string list, unit, string) env" where
  "escapingEnv = demoEnv \<lparr> GetSelection := (\<lambda>hist title choices. (''quit'', 0)) \<rparr>"

section \<open>Properties\<close>

subsection \<open>The collaborators of the small store\<close>

lemma demoEnv_fields:
  "Crypto demoEnv = (\<lambda>w store. Some ())"
  "ListRecipients demoEnv = (\<lambda>w store. w)"
  "AddRecipient demoEnv = (\<lambda>w store recp.
     if recp = ''FP:bad'' then (Some (Err ''disk full''), w) else (None, w @ [recp]))"
  "RemoveRecipient demoEnv = (\<lambda>w store recp. (None, removeAll recp w))"
  "FindPublicKeys demoEnv = (\<lambda>w c query.
     case query of
       [] \<Rightarrow> Inr [''alice'', ''bob'']
     | r # _ \<Rightarrow> if r = ''nobody'' then Inr [] else Inr [r])"
  "FindPrivateKeys demoEnv = (\<lambda>w c r. if r = ''me'' then Inr [''me''] else Inr [])"
  "Fingerprint demoEnv = (\<lambda>w c k. ''FP:'' @ k)"
  "FormatKey demoEnv = (\<lambda>w c k. k)"
  "AskForConfirmation demoEnv = (\<lambda>hist prompt. True)"
  "AskForStore demoEnv = (\<lambda>hist. ''vault'')"
  "GetSelection demoEnv = (\<lambda>hist title choices. (''default'', 0))"
  "ErrorText demoEnv = (\<lambda>e. case e of Err s \<Rightarrow> s
                                | ErrRecipientChecksumChanged \<Rightarrow> ''checksum'')"
  by (simp_all add: demoEnv_def)

subsection \<open>Expiration of keys\<close>

lemma examined_append: "examined (xs @ ys) = examined xs @ examined ys"
  by (induction xs rule: examined.induct) simp_all

text \<open>
  C3, as the code has it: for an expiration date that is set and lies strictly before the
  clock reading, whatever the threshold, the notice is "expired at" followed by the date
  and the flag is true; one clock reading is used.
\<close>

theorem renderExpirationNotice_expired:
  "expirationDate \<noteq> 0 \<Longrightarrow> expirationDate < Now env k \<Longrightarrow>
     renderExpirationNotice env k expirationDate warnThreshold
       = (''expired at '' @ FormatTime env expirationDate, True, Suc k)"
  by (simp add: renderExpirationNotice_def)

theorem renderExpirationNotice_expired_witness:
  "(50::int) \<noteq> 0 \<and> 50 < Now demoEnv 7
   \<and> renderExpirationNotice demoEnv 7 50 3 = (''expired at T'', True, 8)"
  using renderExpirationNotice_expired [of 50 demoEnv 7 3] by (simp add: demoEnv_def)

text \<open>
  At the instant of expiration itself \<open>After\<close> is false: with a threshold of zero the key
  that expires at 50 gets no notice and no warning at 50.
\<close>

theorem renderExpirationNotice_at_expiration_counterexample:
  "(50::int) \<noteq> 0 \<and> 50 \<le> Now noonEnv 0
   \<and> renderExpirationNotice noonEnv 0 50 0 = ([], False, 2)"
  by (simp add: renderExpirationNotice_def noonEnv_def demoEnv_def)

text \<open>When every lookup succeeds, every recipient is examined and the flag is set exactly
  when a line was printed.\<close>

lemma expirationLoop_all_ok:
  "\<forall>r \<in> set rs. \<not> isl (ExpirationDateFromKey env w c r) \<Longrightarrow>
     examined (fst (expirationLoop env w c thr k hasErr rs)) = rs
     \<and> snd (expirationLoop env w c thr k hasErr rs)
         = Inr (hasErr \<or> warned (fst (expirationLoop env w c thr k hasErr rs)) \<noteq> [])"
proof (induction rs arbitrary: k hasErr)
  case Nil
  then show ?case by simp
next
  case (Cons r rs)
  from Cons.prems obtain t where t: "ExpirationDateFromKey env w c r = Inr t"
    by (cases "ExpirationDateFromKey env w c r") auto
  obtain notice warn k' where rn: "renderExpirationNotice env k t thr = (notice, warn, k')"
    by (cases "renderExpirationNotice env k t thr") auto
  from Cons.prems have rest: "\<forall>r \<in> set rs. \<not> isl (ExpirationDateFromKey env w c r)"
    by simp
  show ?case
  proof (cases warn)
    case True
    with t rn Cons.IH [OF rest, of k' True] show ?thesis
      by (simp add: split_beta)
  next
    case False
    with t rn Cons.IH [OF rest, of k' hasErr] show ?thesis
      by (simp add: split_beta)
  qed
qed

text \<open>The first lookup that fails ends the loop with its error.\<close>

lemma expirationLoop_first_failure:
  "\<forall>x \<in> set pre. \<not> isl (ExpirationDateFromKey env w c x) \<Longrightarrow>
   ExpirationDateFromKey env w c r = Inl e \<Longrightarrow>
     examined (fst (expirationLoop env w c thr k hasErr (pre @ r # post))) = pre @ [r]
     \<and> snd (expirationLoop env w c thr k hasErr (pre @ r # post)) = Inl (Returned e)"
proof (induction pre arbitrary: k hasErr)
  case Nil
  then show ?case by simp
next
  case (Cons x pre)
  from Cons.prems obtain t where t: "ExpirationDateFromKey env w c x = Inr t"
    by (cases "ExpirationDateFromKey env w c x") auto
  obtain notice warn k' where rn: "renderExpirationNotice env k t thr = (notice, warn, k')"
    by (cases "renderExpirationNotice env k t thr") auto
  from Cons.prems have rest: "\<forall>x \<in> set pre. \<not> isl (ExpirationDateFromKey env w c x)"
    by simp
  show ?case
  proof (cases warn)
    case True
    with t rn Cons.IH [OF rest Cons.prems(2), of k' True] show ?thesis
      by (simp add: split_beta)
  next
    case False
    with t rn Cons.IH [OF rest Cons.prems(2), of k' hasErr] show ?thesis
      by (simp add: split_beta)
  qed
qed

text \<open>Whatever the lookups do: the flag after the loop is the flag before it or a printed
  line, and a loop that returns early returns the error of a lookup.\<close>

lemma expirationLoop_result:
  "(\<forall>b. snd (expirationLoop env w c thr k hasErr rs) = Inr b \<longrightarrow>
        b = (hasErr \<or> warned (fst (expirationLoop env w c thr k hasErr rs)) \<noteq> []))
   \<and> (\<forall>f. snd (expirationLoop env w c thr k hasErr rs) = Inl f \<longrightarrow> (\<exists>e. f = Returned e))"
proof (induction rs arbitrary: k hasErr)
  case Nil
  show ?case by simp
next
  case (Cons r rs)
  show ?case
  proof (cases "ExpirationDateFromKey env w c r")
    case (Inl e)
    then show ?thesis by simp
  next
    case (Inr t)
    obtain notice warn k' where rn: "renderExpirationNotice env k t thr = (notice, warn, k')"
      by (cases "renderExpirationNotice env k t thr") auto
    show ?thesis
    proof (cases warn)
      case True
      with Inr rn Cons.IH [of k' True] show ?thesis
        by (auto simp: split_beta)
    next
      case False
      with Inr rn Cons.IH [of k' hasErr] show ?thesis
        by (auto simp: split_beta)
    qed
  qed
qed

text \<open>
  C6: the audit returns the expiration error exactly when a line was printed for some
  key and no lookup error ended the run. With a crypto backend at hand, an audit in
  which every expiration lookup succeeds examines every recipient, fails (with the
  expiration error) exactly when a line was printed for some key and returns no error
  exactly when none was. The first lookup that fails ends the audit with the error of
  that lookup, and the recipients after it are not examined.
\<close>

theorem RecipientsPrintExpiration_result:
  assumes "RecipientsPrintExpiration env w store thr = (evs, res)"
  shows "(res = Inl ExpirationErr \<longleftrightarrow> warned evs \<noteq> [] \<and> (\<forall>e. res \<noteq> Inl (Returned e)))
       \<and> (\<forall>c. Crypto env w store = Some c \<longrightarrow>
            ((\<forall>r \<in> set (ListRecipients env w store).
                 \<not> isl (ExpirationDateFromKey env w c r)) \<longrightarrow>
               examined evs = ListRecipients env w store
               \<and> (res = Inl ExpirationErr \<longleftrightarrow> warned evs \<noteq> [])
               \<and> (res = Inr () \<longleftrightarrow> warned evs = []))
            \<and> (\<forall>pre r post e.
                 ListRecipients env w store = pre @ r # post
                 \<and> (\<forall>x \<in> set pre. \<not> isl (ExpirationDateFromKey env w c x))
                 \<and> ExpirationDateFromKey env w c r = Inl e \<longrightarrow>
                 res = Inl (Returned e) \<and> examined evs = pre @ [r]))"
proof (rule conjI)
  show "res = Inl ExpirationErr \<longleftrightarrow> warned evs \<noteq> [] \<and> (\<forall>e. res \<noteq> Inl (Returned e))"
  proof (cases "Crypto env w store")
    case None
    with assms show ?thesis by (auto simp: RecipientsPrintExpiration_def)
  next
    case (Some c)
    let ?l = "expirationLoop env w c thr 0 False (ListRecipients env w store)"
    have evs: "evs = fst ?l"
      using assms Some
      by (auto simp: RecipientsPrintExpiration_def split: prod.splits sum.splits)
    have res: "res = (case snd ?l of Inl f \<Rightarrow> Inl f
                      | Inr b \<Rightarrow> if b then Inl ExpirationErr else Inr ())"
      using assms Some
      by (auto simp: RecipientsPrintExpiration_def split: prod.splits sum.splits)
    note l = expirationLoop_result [of env w c thr 0 False "ListRecipients env w store"]
    show ?thesis
    proof (cases "snd ?l")
      case (Inl f)
      with l obtain e where "f = Returned e" by auto
      with Inl res show ?thesis by simp
    next
      case (Inr b)
      with l have "b = (warned (fst ?l) \<noteq> [])" by simp
      with Inr res evs show ?thesis by auto
    qed
  qed
next
  show "\<forall>c. Crypto env w store = Some c \<longrightarrow>
            ((\<forall>r \<in> set (ListRecipients env w store).
                 \<not> isl (ExpirationDateFromKey env w c r)) \<longrightarrow>
               examined evs = ListRecipients env w store
               \<and> (res = Inl ExpirationErr \<longleftrightarrow> warned evs \<noteq> [])
               \<and> (res = Inr () \<longleftrightarrow> warned evs = []))
            \<and> (\<forall>pre r post e.
                 ListRecipients env w store = pre @ r # post
                 \<and> (\<forall>x \<in> set pre. \<not> isl (ExpirationDateFromKey env w c x))
                 \<and> ExpirationDateFromKey env w c r = Inl e \<longrightarrow>
                 res = Inl (Returned e) \<and> examined evs = pre @ [r])"
  proof (intro allI impI conjI)
    fix c
    assume c: "Crypto env w store = Some c"
    let ?rs = "ListRecipients env w store"
    let ?l = "expirationLoop env w c thr 0 False ?rs"
    have evs: "evs = fst ?l"
      using assms c by (auto simp: RecipientsPrintExpiration_def split: prod.splits sum.splits)
    have res: "res = (case snd ?l of Inl f \<Rightarrow> Inl f
                      | Inr b \<Rightarrow> if b then Inl ExpirationErr else Inr ())"
      using assms c by (auto simp: RecipientsPrintExpiration_def split: prod.splits sum.splits)
    {
      assume ok: "\<forall>r \<in> set ?rs. \<not> isl (ExpirationDateFromKey env w c r)"
      note l = expirationLoop_all_ok [OF ok, of thr 0 False]
      show "examined evs = ?rs" using l evs by simp
      show "res = Inl ExpirationErr \<longleftrightarrow> warned evs \<noteq> []" using l evs res by simp
      show "res = Inr () \<longleftrightarrow> warned evs = []" using l evs res by simp
    }
    {
      fix pre r post e
      assume h: "?rs = pre @ r # post
          \<and> (\<forall>x \<in> set pre. \<not> isl (ExpirationDateFromKey env w c x))
          \<and> ExpirationDateFromKey env w c r = Inl e"
      then have ok: "\<forall>x \<in> set pre. \<not> isl (ExpirationDateFromKey env w c x)"
        and bad: "ExpirationDateFromKey env w c r = Inl e" by simp_all
      note l = expirationLoop_first_failure [OF ok bad, of thr 0 False post]
      show "res = Inl (Returned e)" using l h res by simp
      show "examined evs = pre @ [r]" using l h evs by simp
    }
  qed
qed

text \<open>
  Two audits of the small store: the key \<open>old\<close> has expired and fails the audit; the key
  \<open>broken\<close> cannot be read, and \<open>old\<close> after it is never looked at.
\<close>

theorem RecipientsPrintExpiration_result_witness:
  "Crypto demoEnv [''alice'', ''old''] ''vault'' = Some ()
   \<and> ListRecipients demoEnv [''alice'', ''old''] ''vault'' = [''alice'', ''old'']
   \<and> \<not> isl (ExpirationDateFromKey demoEnv [''alice'', ''old''] () ''alice'')
   \<and> \<not> isl (ExpirationDateFromKey demoEnv [''alice'', ''old''] () ''old'')
   \<and> RecipientsPrintExpiration demoEnv [''alice'', ''old''] ''vault'' 0
       = ([EvExpirationLookup ''alice'', EvExpirationLookup ''old'',
           EvStdout (''0xold (old) expired at T'' @ [CHR 0x0A])], Inl ExpirationErr)
   \<and> examined [EvExpirationLookup ''alice'', EvExpirationLookup ''old'',
           EvStdout (''0xold (old) expired at T'' @ [CHR 0x0A])] = [''alice'', ''old'']
   \<and> ListRecipients demoEnv [''alice'', ''broken'', ''old''] ''vault''
       = [''alice''] @ ''broken'' # [''old'']
   \<and> ExpirationDateFromKey demoEnv [''alice'', ''broken'', ''old''] () ''broken''
       = Inl (Err ''no such key'')
   \<and> RecipientsPrintExpiration demoEnv [''alice'', ''broken'', ''old''] ''vault'' 0
       = ([EvExpirationLookup ''alice'', EvExpirationLookup ''broken''],
          Inl (Returned (Err ''no such key'')))"
proof -
  have r1: "RecipientsPrintExpiration demoEnv [''alice'', ''old''] ''vault'' 0
       = ([EvExpirationLookup ''alice'', EvExpirationLookup ''old'',
           EvStdout (''0xold (old) expired at T'' @ [CHR 0x0A])], Inl ExpirationErr)"
    by (simp add: RecipientsPrintExpiration_def renderExpirationNotice_def demoEnv_def)
  have r2: "RecipientsPrintExpiration demoEnv [''alice'', ''broken'', ''old''] ''vault'' 0
       = ([EvExpirationLookup ''alice'', EvExpirationLookup ''broken''],
          Inl (Returned (Err ''no such key'')))"
    by (simp add: RecipientsPrintExpiration_def renderExpirationNotice_def demoEnv_def)
  have c1: "Crypto demoEnv [''alice'', ''old''] ''vault'' = Some ()"
    and c2: "Crypto demoEnv [''alice'', ''broken'', ''old''] ''vault'' = Some ()"
    by (simp_all add: demoEnv_def)
  have ok: "\<forall>r \<in> set (ListRecipients demoEnv [''alice'', ''old''] ''vault'').
         \<not> isl (ExpirationDateFromKey demoEnv [''alice'', ''old''] () r)"
    by (simp add: demoEnv_def)
  have l: "ListRecipients demoEnv [''alice'', ''broken'', ''old''] ''vault''
       = [''alice''] @ ''broken'' # [''old'']"
    and b: "ExpirationDateFromKey demoEnv [''alice'', ''broken'', ''old''] () ''broken''
       = Inl (Err ''no such key'')"
    and a: "\<forall>x \<in> set [''alice''].
       \<not> isl (ExpirationDateFromKey demoEnv [''alice'', ''broken'', ''old''] () x)"
    by (simp_all add: demoEnv_def)
  from RecipientsPrintExpiration_result [OF r1] c1 ok
  have "examined [EvExpirationLookup ''alice'', EvExpirationLookup ''old'',
           EvStdout (''0xold (old) expired at T'' @ [CHR 0x0A])]
          = ListRecipients demoEnv [''alice'', ''old''] ''vault''"
    by blast
  moreover from RecipientsPrintExpiration_result [OF r2] c2 l b a
  have "Inl (Returned (Err ''no such key''))
          = (Inl (Returned (Err ''no such key'')) :: failure + unit)"
    by blast
  ultimately show ?thesis using r1 r2 c1 ok l b by (simp add: demoEnv_def)
qed

subsection \<open>Re-trusting the recipient lists\<close>


lemma visited_prints: "visited (map (\<lambda>r. EvPrint (f r)) rs) = []"
  by (induction rs) simp_all

lemma isWrite_prints: "filter isWrite (map (\<lambda>r. EvPrint (f r)) rs) = []"
  by (induction rs) simp_all

lemma isConfirm_prints: "filter isConfirm (map (\<lambda>r. EvPrint (f r)) rs) = []"
  by (induction rs) simp_all

text \<open>The four ways one turn of the loop can go.\<close>

lemma updateStep_cases:
  "updateStep env hist w a = ([EvGetSubStore a], w, Skipped)
   \<or> (\<exists>e. e \<noteq> ErrRecipientChecksumChanged
          \<and> updateStep env hist w a = ([EvGetSubStore a], w, Aborted (Returned e)))
   \<or> (\<exists>ev1 p. filter isWrite ev1 = [] \<and> filter isConfirm ev1 = [] \<and> visited ev1 = [a]
          \<and> updateStep env hist w a = (ev1 @ [EvConfirm p False], w, Skipped))
   \<or> (\<exists>ev1 p rest w' out. filter isConfirm ev1 = [] \<and> filter isConfirm rest = []
          \<and> visited ev1 = [a] \<and> visited rest = [] \<and> out \<noteq> Skipped
          \<and> updateStep env hist w a = (ev1 @ EvConfirm p True # rest, w', out))"
proof (cases "GetSubStore env w a")
  case (Inl e)
  then show ?thesis by (simp add: updateStep_def)
next
  case (Inr so)
  show ?thesis
  proof (cases so)
    case None
    with Inr show ?thesis by (simp add: updateStep_def)
  next
    case (Some subs)
    obtain recp err where g: "GetRecipients env w subs = (recp, err)"
      by (cases "GetRecipients env w subs") auto
    show ?thesis
    proof (cases "err \<noteq> None \<and> err \<noteq> Some ErrRecipientChecksumChanged")
      case True
      with Inr Some g show ?thesis by (auto simp: updateStep_def)
    next
      case nf: False
      show ?thesis
      proof (cases "err = None
          \<and> GetRecipientHash env w a (IDFile env (SubCrypto env subs)) \<noteq> []")
        case True
        with Inr Some g show ?thesis by (simp add: updateStep_def)
      next
        case False
        let ?label = "if a = [] then ''<root>'' else a"
        let ?ev1 = "EvGetSubStore a
                     # EvCyan (''Please confirm Recipients for '' @ ?label @ '':'')
                     # map (\<lambda>r. EvPrint (''- '' @ FormatKey env w (SubCrypto env subs) r)) recp"
        have w1: "filter isWrite ?ev1 = []" by (simp add: isWrite_prints)
        have c1: "filter isConfirm ?ev1 = []" by (simp add: isConfirm_prints)
        have v1: "visited ?ev1 = [a]" by (simp add: visited_prints)
        show ?thesis
        proof (cases "AskForConfirmation env (hist @ ?ev1) (trustPrompt ?label)")
          case ans: False
          have "updateStep env hist w a
                  = (?ev1 @ [EvConfirm (trustPrompt ?label) False], w, Skipped)"
            using Inr Some g nf False ans by (simp add: updateStep_def Let_def)
          with w1 c1 v1 show ?thesis by blast
        next
          case ans: True
          obtain e w1 where s: "SetRecipients env w subs recp = (e, w1)"
            by (cases "SetRecipients env w subs recp") auto
          have "\<exists>rest w' out. filter isConfirm rest = [] \<and> visited rest = []
                  \<and> out \<noteq> Skipped
                  \<and> updateStep env hist w a
                      = (?ev1 @ EvConfirm (trustPrompt ?label) True # rest, w', out)"
            using Inr Some g nf False ans s
            by (cases e) (simp_all add: updateStep_def Let_def)
          with c1 v1 show ?thesis by blast
        qed
      qed
    qed
  qed
qed





text \<open>A run of the small store in which the operator declines all three prompts.\<close>

lemma decliningEnv_run:
  "RecipientsUpdate decliningEnv [''x'']
     = ([EvGetSubStore ''teamA'', EvCyan ''Please confirm Recipients for teamA:'',
         EvPrint ''- x'', EvConfirm ''Do you trust these recipients for teamA?'' False,
         EvGetSubStore ''teamA/sub'', EvCyan ''Please confirm Recipients for teamA/sub:'',
         EvPrint ''- x'', EvConfirm ''Do you trust these recipients for teamA/sub?'' False,
         EvGetSubStore [], EvCyan ''Please confirm Recipients for <root>:'',
         EvPrint ''- x'', EvConfirm ''Do you trust these recipients for <root>?'' False,
         EvGreen ''Nothing to do''],
        [''x''], Inr ())"
  by (simp add: RecipientsUpdate_def storeNodes_def updateStep_def trustPrompt_def
      decliningEnv_def demoEnv_def)




text \<open>
  C7: for a sub store that resolves, a fetch that fails with the checksum sentinel, or
  that succeeds while no checksum is recorded, asks the operator the one trust question
  of that node; a fetch that fails with any other error makes the turn return that error,
  and with it the loop, before any later node is looked at.
\<close>

theorem updateStep_fetch:
  assumes "GetSubStore env w a = Inr (Some subs)"
    and "GetRecipients env w subs = (recp, err)"
  shows "((err = Some ErrRecipientChecksumChanged
            \<or> (err = None \<and> GetRecipientHash env w a (IDFile env (SubCrypto env subs)) = []))
          \<longrightarrow> (\<exists>ans. filter isConfirm (fst (updateStep env hist w a))
                  = [EvConfirm (trustPrompt (if a = [] then ''<root>'' else a)) ans]))
       \<and> (\<forall>e. err = Some e \<and> e \<noteq> ErrRecipientChecksumChanged \<longrightarrow>
             updateStep env hist w a = ([EvGetSubStore a], w, Aborted (Returned e))
             \<and> updateLoop env hist w changed (a # rest)
                 = ([EvGetSubStore a], w, Inl (Returned e)))"
proof (intro conjI allI impI)
  assume h: "err = Some ErrRecipientChecksumChanged
            \<or> (err = None \<and> GetRecipientHash env w a (IDFile env (SubCrypto env subs)) = [])"
  let ?label = "if a = [] then ''<root>'' else a"
  let ?ev1 = "EvGetSubStore a
               # EvCyan (''Please confirm Recipients for '' @ ?label @ '':'')
               # map (\<lambda>r. EvPrint (''- '' @ FormatKey env w (SubCrypto env subs) r)) recp"
  obtain e w1 where s: "SetRecipients env w subs recp = (e, w1)"
    by (cases "SetRecipients env w subs recp") auto
  have "filter isConfirm (fst (updateStep env hist w a))
          = [EvConfirm (trustPrompt ?label)
               (AskForConfirmation env (hist @ ?ev1) (trustPrompt ?label))]"
    using assms h s
    by (cases e; cases "AskForConfirmation env (hist @ ?ev1) (trustPrompt ?label)")
       (auto simp: updateStep_def Let_def isConfirm_prints)
  then show "\<exists>ans. filter isConfirm (fst (updateStep env hist w a))
                  = [EvConfirm (trustPrompt ?label) ans]" by blast
next
  fix e
  assume h: "err = Some e \<and> e \<noteq> ErrRecipientChecksumChanged"
  show st: "updateStep env hist w a = ([EvGetSubStore a], w, Aborted (Returned e))"
    using assms h by (simp add: updateStep_def)
  show "updateLoop env hist w changed (a # rest) = ([EvGetSubStore a], w, Inl (Returned e))"
    using st by simp
qed

theorem updateStep_fetch_witness:
  "GetSubStore brokenRootEnv [''x''] ''teamA'' = Inr (Some ''teamA'')
   \<and> GetRecipients brokenRootEnv [''x''] ''teamA'' = ([''x''], None)
   \<and> GetRecipientHash brokenRootEnv [''x''] ''teamA''
        (IDFile brokenRootEnv (SubCrypto brokenRootEnv ''teamA'')) = []
   \<and> filter isConfirm (fst (updateStep brokenRootEnv [] [''x''] ''teamA''))
        = [EvConfirm ''Do you trust these recipients for teamA?'' False]
   \<and> GetSubStore brokenRootEnv [''x''] [] = Inr (Some [])
   \<and> GetRecipients brokenRootEnv [''x''] [] = ([], Some (Err ''read error''))
   \<and> Err ''read error'' \<noteq> ErrRecipientChecksumChanged
   \<and> updateLoop brokenRootEnv [] [''x''] 0 [[], ''teamA'']
        = ([EvGetSubStore []], [''x''], Inl (Returned (Err ''read error'')))"
proof -
  have s1: "GetSubStore brokenRootEnv [''x''] ''teamA'' = Inr (Some ''teamA'')"
    and g1: "GetRecipients brokenRootEnv [''x''] ''teamA'' = ([''x''], None)"
    and h1: "GetRecipientHash brokenRootEnv [''x''] ''teamA''
        (IDFile brokenRootEnv (SubCrypto brokenRootEnv ''teamA'')) = []"
    and s2: "GetSubStore brokenRootEnv [''x''] [] = Inr (Some [])"
    and g2: "GetRecipients brokenRootEnv [''x''] [] = ([], Some (Err ''read error''))"
    by (simp_all add: brokenRootEnv_def decliningEnv_def demoEnv_def)
  from updateStep_fetch [OF s1 g1, of "[]"] h1
  obtain ans where "filter isConfirm (fst (updateStep brokenRootEnv [] [''x''] ''teamA''))
        = [EvConfirm (trustPrompt ''teamA'') ans]"
    by auto
  moreover have "filter isConfirm (fst (updateStep brokenRootEnv [] [''x''] ''teamA''))
        = [EvConfirm ''Do you trust these recipients for teamA?'' False]"
    by (simp add: updateStep_def trustPrompt_def brokenRootEnv_def decliningEnv_def demoEnv_def)
  moreover from updateStep_fetch [OF s2 g2, of "[]" 0 "[''teamA'']"]
  have "updateLoop brokenRootEnv [] [''x''] 0 [[], ''teamA'']
        = ([EvGetSubStore []], [''x''], Inl (Returned (Err ''read error'')))"
    by simp
  ultimately show ?thesis using s1 g1 h1 s2 g2 by simp
qed

text \<open>A turn in which no prompt is accepted changes nothing and counts nothing.\<close>

lemma updateStep_declined:
  assumes "updateStep env hist w a = (evs, w', out)"
    and "\<forall>p. EvConfirm p True \<notin> set evs"
  shows "w' = w \<and> filter isWrite evs = [] \<and> out \<noteq> Committed
       \<and> (\<forall>f. out = Aborted f \<longrightarrow> (\<exists>e. f = Returned e \<and> e \<noteq> ErrRecipientChecksumChanged))"
  using updateStep_cases [of env hist w a] assms by (elim disjE exE conjE) auto

lemma updateStep_decline_skips:
  assumes "updateStep env hist w a = (evs, w', out)"
    and "EvConfirm p False \<in> set evs"
  shows "out = Skipped \<and> w' = w \<and> filter isWrite evs = []"
proof -
  have nc: "\<And>xs. filter isConfirm xs = [] \<Longrightarrow> EvConfirm p False \<notin> set xs"
    by (auto simp: filter_empty_conv)
  from updateStep_cases [of env hist w a] assms nc show ?thesis
    by (elim disjE exE conjE) auto
qed

lemma updateLoop_declined:
  "updateLoop env hist w n as = (evs, w', res) \<Longrightarrow> \<forall>p. EvConfirm p True \<notin> set evs \<Longrightarrow>
     w' = w \<and> filter isWrite evs = []
     \<and> (\<forall>m. res = Inr m \<longrightarrow> m = n)
     \<and> (\<forall>f. res = Inl f \<longrightarrow> (\<exists>e. f = Returned e \<and> e \<noteq> ErrRecipientChecksumChanged))"
proof (induction as arbitrary: hist w n evs w' res)
  case Nil
  then show ?case by auto
next
  case (Cons a as)
  obtain evs1 w1 out where st: "updateStep env hist w a = (evs1, w1, out)"
    by (cases "updateStep env hist w a") auto
  show ?case
  proof (cases out)
    case (Aborted f)
    with st Cons.prems have e: "evs = evs1" "w' = w1" "res = Inl f" by auto
    from updateStep_declined [OF st] Cons.prems(2) e Aborted show ?thesis by auto
  next
    case Skipped
    obtain evs2 w2 res2 where l: "updateLoop env (hist @ evs1) w1 n as = (evs2, w2, res2)"
      by (cases "updateLoop env (hist @ evs1) w1 n as") auto
    with st Skipped Cons.prems have e: "evs = evs1 @ evs2" "w' = w2" "res = res2" by auto
    from e Cons.prems(2) have d1: "\<forall>p. EvConfirm p True \<notin> set evs1"
      and d2: "\<forall>p. EvConfirm p True \<notin> set evs2" by auto
    from updateStep_declined [OF st d1] Cons.IH [OF l d2] e show ?thesis by auto
  next
    case Committed
    from Cons.prems(2) st Cons.prems(1) Committed
    have d1: "\<forall>p. EvConfirm p True \<notin> set evs1"
      by (auto split: prod.splits)
    from updateStep_declined [OF st d1] Committed show ?thesis by simp
  qed
qed

text \<open>
  C8, as the code has it: a turn whose prompt is declined skips the node, leaves the
  state as it was and makes no call that writes a recipient list. A run in which no
  prompt is accepted leaves the whole state, the recorded checksums with it, as it was
  and writes nothing; it returns either no error, after reporting that there was
  nothing to do (the count of changed stores is 0), or the error of a fetch that failed
  with something other than the checksum sentinel.
\<close>

theorem RecipientsUpdate_declined:
  "(updateStep env hist v a = (evs1, v1, out) \<and> EvConfirm p False \<in> set evs1 \<longrightarrow>
      out = Skipped \<and> v1 = v \<and> filter isWrite evs1 = [])
   \<and> (RecipientsUpdate env w = (evs, w', res) \<and> (\<forall>q. EvConfirm q True \<notin> set evs) \<longrightarrow>
        w' = w
        \<and> (\<forall>b f. GetRecipientHash env w' b f = GetRecipientHash env w b f)
        \<and> filter isWrite evs = []
        \<and> (res = Inr () \<longrightarrow>
             last evs = EvGreen ''Nothing to do''
             \<and> snd (snd (updateLoop env [] w 0 (storeNodes env w))) = Inr 0)
        \<and> (res = Inr ()
             \<or> (\<exists>e. res = Inl (Returned e) \<and> e \<noteq> ErrRecipientChecksumChanged)))"
proof (rule conjI; rule impI)
  assume "updateStep env hist v a = (evs1, v1, out) \<and> EvConfirm p False \<in> set evs1"
  then show "out = Skipped \<and> v1 = v \<and> filter isWrite evs1 = []"
    using updateStep_decline_skips [of env hist v a evs1 v1 out p] by blast
next
  assume h: "RecipientsUpdate env w = (evs, w', res) \<and> (\<forall>q. EvConfirm q True \<notin> set evs)"
  obtain evs0 w0 res0 where l: "updateLoop env [] w 0 (storeNodes env w) = (evs0, w0, res0)"
    by (cases "updateLoop env [] w 0 (storeNodes env w)") auto
  from h l have sub: "\<forall>q. EvConfirm q True \<notin> set evs0"
    by (auto simp: RecipientsUpdate_def split: sum.splits if_splits)
  note d = updateLoop_declined [OF l sub]
  from h l d have w: "w' = w"
    by (auto simp: RecipientsUpdate_def split: sum.splits if_splits)
  from h l d have wr: "filter isWrite evs = []"
    by (auto simp: RecipientsUpdate_def split: sum.splits if_splits)
  from h l d have ok: "res = Inr () \<longrightarrow>
             last evs = EvGreen ''Nothing to do''
             \<and> snd (snd (updateLoop env [] w 0 (storeNodes env w))) = Inr 0"
    by (auto simp: RecipientsUpdate_def split: sum.splits if_splits)
  from h l d have alt: "res = Inr ()
             \<or> (\<exists>e. res = Inl (Returned e) \<and> e \<noteq> ErrRecipientChecksumChanged)"
    by (auto simp: RecipientsUpdate_def split: sum.splits if_splits)
  from w wr ok alt
  show "w' = w
        \<and> (\<forall>b f. GetRecipientHash env w' b f = GetRecipientHash env w b f)
        \<and> filter isWrite evs = []
        \<and> (res = Inr () \<longrightarrow>
             last evs = EvGreen ''Nothing to do''
             \<and> snd (snd (updateLoop env [] w 0 (storeNodes env w))) = Inr 0)
        \<and> (res = Inr ()
             \<or> (\<exists>e. res = Inl (Returned e) \<and> e \<noteq> ErrRecipientChecksumChanged))"
    by simp
qed

lemma decliningEnv_step:
  "updateStep decliningEnv [] [''x''] ''teamA''
     = ([EvGetSubStore ''teamA'', EvCyan ''Please confirm Recipients for teamA:'',
         EvPrint ''- x'', EvConfirm ''Do you trust these recipients for teamA?'' False],
        [''x''], Skipped)"
  by (simp add: updateStep_def trustPrompt_def decliningEnv_def demoEnv_def)

theorem RecipientsUpdate_declined_witness:
  "EvConfirm ''Do you trust these recipients for teamA?'' False
     \<in> set (fst (updateStep decliningEnv [] [''x''] ''teamA''))
   \<and> snd (snd (updateStep decliningEnv [] [''x''] ''teamA'')) = Skipped
   \<and> filter isConfirm (fst (RecipientsUpdate decliningEnv [''x'']))
       = [EvConfirm ''Do you trust these recipients for teamA?'' False,
          EvConfirm ''Do you trust these recipients for teamA/sub?'' False,
          EvConfirm ''Do you trust these recipients for <root>?'' False]
   \<and> fst (snd (RecipientsUpdate decliningEnv [''x''])) = [''x'']
   \<and> filter isWrite (fst (RecipientsUpdate decliningEnv [''x''])) = []
   \<and> snd (snd (RecipientsUpdate decliningEnv [''x''])) = Inr ()
   \<and> last (fst (RecipientsUpdate decliningEnv [''x''])) = EvGreen ''Nothing to do''"
proof -
  have c: "EvConfirm ''Do you trust these recipients for teamA?'' False
     \<in> set (fst (updateStep decliningEnv [] [''x''] ''teamA''))"
    by (simp add: decliningEnv_step)
  have d: "\<forall>q. EvConfirm q True \<notin> set (fst (RecipientsUpdate decliningEnv [''x'']))"
    by (simp add: decliningEnv_run)
  note t = RecipientsUpdate_declined [of decliningEnv "[]" "[''x'']" "''teamA''"
      "fst (updateStep decliningEnv [] [''x''] ''teamA'')"
      "fst (snd (updateStep decliningEnv [] [''x''] ''teamA''))"
      "snd (snd (updateStep decliningEnv [] [''x''] ''teamA''))"
      "''Do you trust these recipients for teamA?''"
      "[''x'']"
      "fst (RecipientsUpdate decliningEnv [''x''])"
      "fst (snd (RecipientsUpdate decliningEnv [''x'']))"
      "snd (snd (RecipientsUpdate decliningEnv [''x'']))"]
  from t c have "snd (snd (updateStep decliningEnv [] [''x''] ''teamA'')) = Skipped"
    by simp
  moreover from t d have "fst (snd (RecipientsUpdate decliningEnv [''x''])) = [''x'']"
    and "filter isWrite (fst (RecipientsUpdate decliningEnv [''x''])) = []"
    by simp_all
  ultimately show ?thesis using c by (simp add: decliningEnv_run)
qed

text \<open>
  The declining operator and a root store that cannot be read: both prompts of the run
  are declined, and the run returns the read error.
\<close>

theorem RecipientsUpdate_declined_counterexample:
  "filter isConfirm (fst (RecipientsUpdate brokenRootEnv [''x'']))
     = [EvConfirm ''Do you trust these recipients for teamA?'' False,
        EvConfirm ''Do you trust these recipients for teamA/sub?'' False]
   \<and> snd (snd (RecipientsUpdate brokenRootEnv [''x''])) = Inl (Returned (Err ''read error''))
   \<and> snd (snd (RecipientsUpdate brokenRootEnv [''x''])) \<noteq> Inr ()"
  by (simp add: RecipientsUpdate_def storeNodes_def updateStep_def trustPrompt_def
      brokenRootEnv_def decliningEnv_def demoEnv_def)

subsection \<open>Adding and removing recipients: one candidate\<close>

lemma write_free:
  "filter isWrite evs = [] \<Longrightarrow> filter isCommit evs = [] \<and> filter isFailedCommit evs = []"
proof (induction evs)
  case Nil
  show ?case by simp
next
  case (Cons e evs)
  then show ?case by (cases e) (auto split: if_splits)
qed

lemma resolveRecipient_quiet:
  "filter isConfirm (fst (resolveRecipient env w c force r)) = []
   \<and> filter isWrite (fst (resolveRecipient env w c force r)) = []"
  by (cases "FindPublicKeys env w c [r]")
     (simp_all add: resolveRecipient_def noMatchWarning_def)

lemma resolveRecipient_found:
  "FindPublicKeys env w c [r] = Inr keys \<Longrightarrow> keys \<noteq> [] \<or> force \<Longrightarrow>
     resolveRecipient env w c force r
       = ([], Some (case keys of [] \<Rightarrow> r | k # ks \<Rightarrow> Fingerprint env w c k))"
  by (cases keys) (auto simp: resolveRecipient_def)

text \<open>The gate asks exactly when the candidate is one of the operator's own keys.\<close>

lemma selfRemovalGate_eq:
  "selfRemovalGate env c hist w r =
     (if ownKey env w c r
      then ([EvConfirm (selfPrompt r) (AskForConfirmation env hist (selfPrompt r))],
            AskForConfirmation env hist (selfPrompt r))
      else ([], True))"
  by (cases "FindPrivateKeys env w c r") (simp_all add: selfRemovalGate_def ownKey_def Let_def)

text \<open>What the rest of a removal turn can do: no prompt, at most one call that writes.\<close>

lemma removeCommit_cases:
  "\<exists>ev1. filter isConfirm ev1 = [] \<and> filter isWrite ev1 = []
     \<and> (removeCommit env store c force w r = (ev1, w, Skipped)
          \<and> snd (resolveRecipient env w c force r) = None
        \<or> (\<exists>recp w'. snd (resolveRecipient env w c force r) = Some recp
              \<and> RemoveRecipient env w store recp = (None, w')
              \<and> removeCommit env store c force w r
                  = (ev1 @ [EvRemove store recp None, EvStdout (removalWarning r)],
                     w', Committed))
        \<or> (\<exists>recp x w' m. snd (resolveRecipient env w c force r) = Some recp
              \<and> RemoveRecipient env w store recp = (Some x, w')
              \<and> removeCommit env store c force w r
                  = (ev1 @ [EvRemove store recp (Some x)], w',
                     Aborted (ExitError ExitRecipients (Some x) m))))"
proof -
  obtain ev1 resolved where rr: "resolveRecipient env w c force r = (ev1, resolved)"
    by (cases "resolveRecipient env w c force r") auto
  have q: "filter isConfirm ev1 = [] \<and> filter isWrite ev1 = []"
    using resolveRecipient_quiet [of env w c force r] rr by simp
  show ?thesis
  proof (cases resolved)
    case None
    with rr q show ?thesis by (auto simp: removeCommit_def)
  next
    case (Some recp)
    obtain e w' where rm: "RemoveRecipient env w store recp = (e, w')"
      by (cases "RemoveRecipient env w store recp") auto
    show ?thesis
    proof (cases e)
      case None
      with rr Some rm have "removeCommit env store c force w r
          = (ev1 @ [EvRemove store recp None, EvStdout (removalWarning r)], w', Committed)"
        by (simp add: removeCommit_def)
      with q rr Some rm None show ?thesis by auto
    next
      case (Some x)
      with rr \<open>resolved = Some recp\<close> rm have "removeCommit env store c force w r
          = (ev1 @ [EvRemove store recp (Some x)], w',
             Aborted (ExitError ExitRecipients (Some x)
               (''failed to remove recipient '' @ quoted recp @ '': '' @ ErrorText env x)))"
        by (simp add: removeCommit_def)
      with q rr \<open>resolved = Some recp\<close> rm Some show ?thesis by auto
    qed
  qed
qed

lemma removeCommit_no_prompt:
  "filter isConfirm (fst (removeCommit env store c force w r)) = []"
  using removeCommit_cases [of env store c force w r] by (elim exE conjE disjE) simp_all

lemma removeStep_eq:
  "removeStep env store c force hist w r =
     (if ownKey env w c r then
        (if AskForConfirmation env hist (selfPrompt r) then
           (EvConfirm (selfPrompt r) True # fst (removeCommit env store c force w r),
            snd (removeCommit env store c force w r))
         else ([EvConfirm (selfPrompt r) False], w, Skipped))
      else removeCommit env store c force w r)"
  by (simp add: removeStep_def selfRemovalGate_eq split_beta)

text \<open>What a turn of the loop of \<open>RecipientsAdd\<close> can do.\<close>

lemma addStep_cases:
  "\<exists>ev1. filter isConfirm ev1 = [] \<and> filter isWrite ev1 = []
     \<and> (addStep env store c force hist w r = (ev1, w, Skipped)
        \<or> (\<exists>p. addStep env store c force hist w r = (ev1 @ [EvConfirm p False], w, Skipped))
        \<or> (\<exists>p recp w'. addStep env store c force hist w r
              = (ev1 @ [EvConfirm p True, EvAdd store recp None], w', Committed))
        \<or> (\<exists>p recp x w' m. addStep env store c force hist w r
              = (ev1 @ [EvConfirm p True, EvAdd store recp (Some x)], w',
                 Aborted (ExitError ExitRecipients (Some x) m))))"
proof -
  obtain ev1 resolved where rr: "resolveRecipient env w c force r = (ev1, resolved)"
    by (cases "resolveRecipient env w c force r") auto
  have q: "filter isConfirm ev1 = [] \<and> filter isWrite ev1 = []"
    using resolveRecipient_quiet [of env w c force r] rr by simp
  show ?thesis
  proof (cases resolved)
    case None
    with rr q show ?thesis by (auto simp: addStep_def)
  next
    case (Some recp)
    let ?p = "addPrompt env w c recp store"
    show ?thesis
    proof (cases "AskForConfirmation env (hist @ ev1) ?p")
      case False
      with rr Some have "addStep env store c force hist w r
          = (ev1 @ [EvConfirm ?p False], w, Skipped)"
        by (simp add: addStep_def Let_def)
      with q show ?thesis by blast
    next
      case True
      obtain e w' where ad: "AddRecipient env w store recp = (e, w')"
        by (cases "AddRecipient env w store recp") auto
      show ?thesis
      proof (cases e)
        case None
        with rr Some True ad have "addStep env store c force hist w r
            = (ev1 @ [EvConfirm ?p True, EvAdd store recp None], w', Committed)"
          by (simp add: addStep_def Let_def)
        with q show ?thesis by blast
      next
        case (Some x)
        with rr \<open>resolved = Some recp\<close> True ad have "addStep env store c force hist w r
            = (ev1 @ [EvConfirm ?p True, EvAdd store recp (Some x)], w',
               Aborted (ExitError ExitRecipients (Some x)
                 (''failed to add recipient '' @ quoted r @ '': '' @ ErrorText env x)))"
          by (simp add: addStep_def Let_def)
        with q show ?thesis by blast
      qed
    qed
  qed
qed

text \<open>
  C4: when the lookup of the public keys of a candidate returns matches, the only call
  that changes the recipient list in the turn of that candidate, in \<open>RecipientsAdd\<close> as
  in \<open>RecipientsRemove\<close>, is made with the fingerprint of the first match; when it
  returns no match and \<open>force\<close> is set, with the candidate itself. The call is made when
  the operator accepts the prompt of the turn (in a removal: when the turn passes the
  self-removal gate).
\<close>

theorem committed_recipient:
  assumes "FindPublicKeys env w c [r] = Inr keys"
    and "keys \<noteq> [] \<or> force"
  shows "filter isWrite (fst (addStep env store c force hist w r))
           = (if AskForConfirmation env hist
                   (addPrompt env w c
                      (case keys of [] \<Rightarrow> r | k # ks \<Rightarrow> Fingerprint env w c k) store)
              then [EvAdd store (case keys of [] \<Rightarrow> r | k # ks \<Rightarrow> Fingerprint env w c k)
                      (fst (AddRecipient env w store
                         (case keys of [] \<Rightarrow> r | k # ks \<Rightarrow> Fingerprint env w c k)))]
              else [])
       \<and> filter isWrite (fst (removeStep env store c force hist w r))
           = (if snd (selfRemovalGate env c hist w r)
              then [EvRemove store (case keys of [] \<Rightarrow> r | k # ks \<Rightarrow> Fingerprint env w c k)
                      (fst (RemoveRecipient env w store
                         (case keys of [] \<Rightarrow> r | k # ks \<Rightarrow> Fingerprint env w c k)))]
              else [])"
proof -
  let ?recp = "case keys of [] \<Rightarrow> r | k # ks \<Rightarrow> Fingerprint env w c k"
  note rr = resolveRecipient_found [OF assms]
  obtain e w' where ad: "AddRecipient env w store ?recp = (e, w')"
    by (cases "AddRecipient env w store ?recp") auto
  obtain e2 w2 where rm: "RemoveRecipient env w store ?recp = (e2, w2)"
    by (cases "RemoveRecipient env w store ?recp") auto
  have a: "filter isWrite (fst (addStep env store c force hist w r))
           = (if AskForConfirmation env hist (addPrompt env w c ?recp store)
              then [EvAdd store ?recp (fst (AddRecipient env w store ?recp))] else [])"
    using rr ad by (cases e) (simp_all add: addStep_def Let_def)
  have rc: "filter isWrite (fst (removeCommit env store c force w r))
           = [EvRemove store ?recp (fst (RemoveRecipient env w store ?recp))]"
    using rr rm by (cases e2) (simp_all add: removeCommit_def Let_def)
  have b: "filter isWrite (fst (removeStep env store c force hist w r))
           = (if snd (selfRemovalGate env c hist w r)
              then [EvRemove store ?recp (fst (RemoveRecipient env w store ?recp))] else [])"
    using rc by (simp add: removeStep_eq selfRemovalGate_eq)
  from a b show ?thesis by simp
qed

theorem committed_recipient_witness:
  "FindPublicKeys demoEnv [] () [''bob''] = Inr [''bob'']
   \<and> filter isWrite (fst (addStep demoEnv ''vault'' () False [] [] ''bob''))
       = [EvAdd ''vault'' ''FP:bob'' None]
   \<and> filter isWrite (fst (removeStep demoEnv ''vault'' () False [] [] ''bob''))
       = [EvRemove ''vault'' ''FP:bob'' None]
   \<and> FindPublicKeys demoEnv [] () [''nobody''] = Inr []
   \<and> filter isWrite (fst (addStep demoEnv ''vault'' () True [] [] ''nobody''))
       = [EvAdd ''vault'' ''nobody'' None]
   \<and> filter isWrite (fst (removeStep demoEnv ''vault'' () True [] [] ''nobody''))
       = [EvRemove ''vault'' ''nobody'' None]"
proof -
  have f1: "FindPublicKeys demoEnv [] () [''bob''] = Inr [''bob'']"
    and f2: "FindPublicKeys demoEnv [] () [''nobody''] = Inr []"
    by (simp_all add: demoEnv_def)
  have k1: "[''bob''] \<noteq> [] \<or> False" and k2: "([]::string list) \<noteq> [] \<or> True"
    by simp_all
  from committed_recipient [OF f1 k1, of "''vault''" "[]"]
       committed_recipient [OF f2 k2, of "''vault''" "[]"] f1 f2
  show ?thesis
    by (simp add: selfRemovalGate_eq ownKey_def demoEnv_def)
qed



lemma demoEnv_remove_me:
  "removeStep demoEnv ''vault'' () False [] [''FP:me''] ''me''
     = ([EvConfirm (selfPrompt ''me'') True, EvRemove ''vault'' ''FP:me'' None,
         EvStdout (removalWarning ''me'')], [], Committed)"
  by (simp add: removeStep_eq ownKey_def removeCommit_def resolveRecipient_def demoEnv_def)



text \<open>
  C10: the self-removal prompt appears in a removal turn exactly when the lookup of the
  private keys returns no error and at least one key. When the lookup returns an error,
  the turn is the rest of the turn (the public-key lookup and the removal) and nothing
  else: the error leaves no trace and no prompt is asked.
\<close>

theorem selfRemoval_prompt:
  "((\<exists>ans. EvConfirm (selfPrompt r) ans \<in> set (fst (removeStep env store c force hist w r)))
      \<longleftrightarrow> (\<exists>k ks. FindPrivateKeys env w c r = Inr (k # ks)))
   \<and> (FindPrivateKeys env w c r = Inl e \<longrightarrow>
        removeStep env store c force hist w r = removeCommit env store c force w r
        \<and> filter isConfirm (fst (removeStep env store c force hist w r)) = [])"
proof -
  have own: "ownKey env w c r \<longleftrightarrow> (\<exists>k ks. FindPrivateKeys env w c r = Inr (k # ks))"
    by (cases "FindPrivateKeys env w c r")
       (auto simp: ownKey_def neq_Nil_conv)
  have np: "\<And>ans. EvConfirm (selfPrompt r) ans
              \<notin> set (fst (removeCommit env store c force w r))"
    using removeCommit_no_prompt [of env store c force w r]
    by (auto simp: filter_empty_conv)
  have "(\<exists>ans. EvConfirm (selfPrompt r) ans \<in> set (fst (removeStep env store c force hist w r)))
      \<longleftrightarrow> ownKey env w c r"
    using np by (auto simp: removeStep_eq)
  with own have a: "(\<exists>ans. EvConfirm (selfPrompt r) ans
                       \<in> set (fst (removeStep env store c force hist w r)))
      \<longleftrightarrow> (\<exists>k ks. FindPrivateKeys env w c r = Inr (k # ks))"
    by blast
  have b: "FindPrivateKeys env w c r = Inl e \<longrightarrow>
        removeStep env store c force hist w r = removeCommit env store c force w r
        \<and> filter isConfirm (fst (removeStep env store c force hist w r)) = []"
    by (auto simp: removeStep_eq ownKey_def removeCommit_no_prompt)
  from a b show ?thesis by (rule conjI)
qed

theorem selfRemoval_prompt_witness:
  "FindPrivateKeys lockedEnv [''FP:me''] () ''me'' = Inl (Err ''keyring locked'')
   \<and> removeStep lockedEnv ''vault'' () False [] [''FP:me''] ''me''
       = ([EvRemove ''vault'' ''FP:me'' None, EvStdout (removalWarning ''me'')], [], Committed)
   \<and> filter isConfirm (fst (removeStep lockedEnv ''vault'' () False [] [''FP:me''] ''me'')) = []
   \<and> FindPrivateKeys demoEnv [''FP:me''] () ''me'' = Inr [''me'']
   \<and> EvConfirm (selfPrompt ''me'') True
        \<in> set (fst (removeStep demoEnv ''vault'' () False [] [''FP:me''] ''me''))"
proof -
  have l: "FindPrivateKeys lockedEnv [''FP:me''] () ''me'' = Inl (Err ''keyring locked'')"
    and d: "FindPrivateKeys demoEnv [''FP:me''] () ''me'' = Inr [''me'']"
    by (simp_all add: lockedEnv_def demoEnv_def)
  have rc: "removeCommit lockedEnv ''vault'' () False [''FP:me''] ''me''
       = ([EvRemove ''vault'' ''FP:me'' None, EvStdout (removalWarning ''me'')], [], Committed)"
    by (simp add: removeCommit_def resolveRecipient_def lockedEnv_def demoEnv_def)
  note t = selfRemoval_prompt [of "''me''" lockedEnv "''vault''" "()" False "[]" "[''FP:me'']"
      "Err ''keyring locked''"]
  from t l have "removeStep lockedEnv ''vault'' () False [] [''FP:me''] ''me''
          = removeCommit lockedEnv ''vault'' () False [''FP:me''] ''me''"
    by blast
  moreover
  from t l
  have "filter isConfirm (fst (removeStep lockedEnv ''vault'' () False [] [''FP:me''] ''me''))
          = []"
    by blast
  moreover
  from selfRemoval_prompt [of "''me''" demoEnv "''vault''" "()" False "[]" "[''FP:me'']"
      "Err ''keyring locked''"] d
  have "\<exists>ans. EvConfirm (selfPrompt ''me'') ans
        \<in> set (fst (removeStep demoEnv ''vault'' () False [] [''FP:me''] ''me''))"
    by blast
  ultimately show ?thesis using l d rc by (simp add: demoEnv_remove_me)
qed

subsection \<open>Adding and removing recipients: the whole command\<close>

lemma commits_append: "commits (xs @ ys) = commits xs + commits ys"
  by (simp add: commits_def)

lemma commits_quiet: "filter isWrite evs = [] \<Longrightarrow> commits evs = 0"
  using write_free [of evs] by (simp add: commits_def)

lemma addStep_summary:
  "addStep env store c force hist w r = (evs, w', out) \<Longrightarrow> turnSummary evs out"
  using addStep_cases [of env store c force hist w r]
  by (elim exE conjE disjE)
     (auto simp: turnSummary_def commits_append commits_quiet write_free, 
      auto simp: commits_def)

lemma removeCommit_summary:
  "removeCommit env store c force w r = (evs, w', out) \<Longrightarrow> turnSummary evs out"
  using removeCommit_cases [of env store c force w r]
  by (elim exE conjE disjE)
     (auto simp: turnSummary_def commits_append commits_quiet write_free,
      auto simp: commits_def)

lemma removeStep_summary:
  assumes "removeStep env store c force hist w r = (evs, w', out)"
  shows "turnSummary evs out"
proof (cases "ownKey env w c r")
  case False
  with assms removeCommit_summary [of env store c force w r evs w' out] show ?thesis
    by (simp add: removeStep_eq)
next
  case True
  show ?thesis
  proof (cases "AskForConfirmation env hist (selfPrompt r)")
    case False
    with True assms show ?thesis
      by (auto simp: removeStep_eq turnSummary_def commits_def)
  next
    case yes: True
    obtain ev1 w1 out1 where rc: "removeCommit env store c force w r = (ev1, w1, out1)"
      by (cases "removeCommit env store c force w r") auto
    from True yes assms rc have e: "evs = EvConfirm (selfPrompt r) True # ev1" "out = out1"
      by (simp_all add: removeStep_eq)
    have np: "filter isConfirm ev1 = []"
      using removeCommit_no_prompt [of env store c force w r] rc by simp
    from removeCommit_summary [OF rc] e np show ?thesis
      by (cases out1) (auto simp: turnSummary_def commits_def)
  qed
qed

lemma loopSummary_step:
  assumes "turnSummary evs1 out"
    and "out = Skipped \<Longrightarrow> loopSummary n len evs2 res"
    and "out = Committed \<Longrightarrow> loopSummary (Suc n) len evs2 res"
  shows "out = Skipped \<or> out = Committed \<Longrightarrow> loopSummary n (Suc len) (evs1 @ evs2) res"
    and "out = Aborted f \<Longrightarrow> loopSummary n (Suc len) evs1 (Inl f)"
  using assms
  by (auto simp: turnSummary_def loopSummary_def commits_append split: sum.splits)

lemma addLoop_summary:
  "addLoop env store crypto force hist w n rs = (evs, w', res) \<Longrightarrow>
     loopSummary n (length rs) evs res"
proof (induction rs arbitrary: hist w n evs w' res)
  case Nil
  then show ?case by (auto simp: loopSummary_def commits_def)
next
  case (Cons r rs)
  show ?case
  proof (cases crypto)
    case None
    with Cons.prems show ?thesis by (auto simp: loopSummary_def)
  next
    case (Some c)
    obtain evs1 w1 out where st: "addStep env store c force hist w r = (evs1, w1, out)"
      by (cases "addStep env store c force hist w r") auto
    note ts = addStep_summary [OF st]
    show ?thesis
    proof (cases out)
      case (Aborted f)
      with Some st Cons.prems have "evs = evs1" "res = Inl f" by auto
      with loopSummary_step(2) [OF ts _ _ Aborted, of n "length rs" "[]" "Inr 0"] Aborted
      show ?thesis by (simp add: loopSummary_def turnSummary_def ts)
    next
      case Skipped
      obtain evs2 w2 res2 where
        l: "addLoop env store crypto force (hist @ evs1) w1 n rs = (evs2, w2, res2)"
        by (cases "addLoop env store crypto force (hist @ evs1) w1 n rs") auto
      with Some st Skipped Cons.prems have e: "evs = evs1 @ evs2" "res = res2" by auto
      from loopSummary_step(1) [OF ts, of n "length rs" evs2 res2] Cons.IH [OF l] Skipped e
      show ?thesis by simp
    next
      case Committed
      obtain evs2 w2 res2 where
        l: "addLoop env store crypto force (hist @ evs1) w1 (n + 1) rs = (evs2, w2, res2)"
        by (cases "addLoop env store crypto force (hist @ evs1) w1 (n + 1) rs") auto
      with Some st Committed Cons.prems have e: "evs = evs1 @ evs2" "res = res2" by auto
      from loopSummary_step(1) [OF ts, of n "length rs" evs2 res2] Cons.IH [OF l] Committed e
      show ?thesis by simp
    qed
  qed
qed

lemma removeLoop_summary:
  "removeLoop env store crypto force hist w n rs = (evs, w', res) \<Longrightarrow>
     loopSummary n (length rs) evs res"
proof (induction rs arbitrary: hist w n evs w' res)
  case Nil
  then show ?case by (auto simp: loopSummary_def commits_def)
next
  case (Cons r rs)
  show ?case
  proof (cases crypto)
    case None
    with Cons.prems show ?thesis by (auto simp: loopSummary_def)
  next
    case (Some c)
    obtain evs1 w1 out where st: "removeStep env store c force hist w r = (evs1, w1, out)"
      by (cases "removeStep env store c force hist w r") auto
    note ts = removeStep_summary [OF st]
    show ?thesis
    proof (cases out)
      case (Aborted f)
      with Some st Cons.prems have "evs = evs1" "res = Inl f" by auto
      with loopSummary_step(2) [OF ts _ _ Aborted, of n "length rs" "[]" "Inr 0"] Aborted
      show ?thesis by (simp add: loopSummary_def turnSummary_def ts)
    next
      case Skipped
      obtain evs2 w2 res2 where
        l: "removeLoop env store crypto force (hist @ evs1) w1 n rs = (evs2, w2, res2)"
        by (cases "removeLoop env store crypto force (hist @ evs1) w1 n rs") auto
      with Some st Skipped Cons.prems have e: "evs = evs1 @ evs2" "res = res2" by auto
      from loopSummary_step(1) [OF ts, of n "length rs" evs2 res2] Cons.IH [OF l] Skipped e
      show ?thesis by simp
    next
      case Committed
      obtain evs2 w2 res2 where
        l: "removeLoop env store crypto force (hist @ evs1) w1 (n + 1) rs = (evs2, w2, res2)"
        by (cases "removeLoop env store crypto force (hist @ evs1) w1 (n + 1) rs") auto
      with Some st Committed Cons.prems have e: "evs = evs1 @ evs2" "res = res2" by auto
      from loopSummary_step(1) [OF ts, of n "length rs" evs2 res2] Cons.IH [OF l] Committed e
      show ?thesis by simp
    qed
  qed
qed

text \<open>What the two selections return.\<close>

lemma recipientsSelectForRemoval_cases:
  "filter isWrite (fst (recipientsSelectForRemoval env hist w store)) = []
   \<and> filter isConfirm (fst (recipientsSelectForRemoval env hist w store)) = []
   \<and> (snd (recipientsSelectForRemoval env hist w store) = Inl Panic
        \<or> snd (recipientsSelectForRemoval env hist w store) = Inl userAborted
        \<or> snd (recipientsSelectForRemoval env hist w store) = Inr []
        \<or> (\<exists>x. snd (recipientsSelectForRemoval env hist w store) = Inr [x]))"
proof (cases "ListRecipients env w store = []")
  case True
  then show ?thesis by (simp add: recipientsSelectForRemoval_def Let_def)
next
  case ne: False
  show ?thesis
  proof (cases "Crypto env w store")
    case None
    with ne show ?thesis by (simp add: recipientsSelectForRemoval_def Let_def)
  next
    case (Some c)
    let ?ids = "ListRecipients env w store"
    obtain act sel where
      g: "GetSelection env hist ''Remove recipient -'' (map (FormatKey env w c) ?ids) = (act, sel)"
      by (cases "GetSelection env hist ''Remove recipient -'' (map (FormatKey env w c) ?ids)")
         auto
    show ?thesis
    proof (cases "act = ''default'' \<or> act = ''show''")
      case False
      with ne Some g show ?thesis by (simp add: recipientsSelectForRemoval_def Let_def)
    next
      case True
      show ?thesis
        using True ne Some g
        by (cases "0 \<le> sel \<and> sel < int (length ?ids)")
           (auto simp: recipientsSelectForRemoval_def index_def Let_def)
    qed
  qed
qed

lemma recipientsSelectForAdd_cases:
  "filter isWrite (fst (recipientsSelectForAdd env hist w store)) = []
   \<and> filter isConfirm (fst (recipientsSelectForAdd env hist w store)) = []
   \<and> (snd (recipientsSelectForAdd env hist w store) = Inl Panic
        \<or> snd (recipientsSelectForAdd env hist w store) = Inl userAborted
        \<or> snd (recipientsSelectForAdd env hist w store) = Inr []
        \<or> (\<exists>x. snd (recipientsSelectForAdd env hist w store) = Inr [x]))"
proof (cases "Crypto env w store")
  case None
  then show ?thesis by (simp add: recipientsSelectForAdd_def Let_def)
next
  case (Some c)
  let ?kl = "case FindPublicKeys env w c [] of Inl e \<Rightarrow> [] | Inr ks \<Rightarrow> ks"
  show ?thesis
  proof (cases "?kl = []")
    case True
    with Some show ?thesis by (simp add: recipientsSelectForAdd_def Let_def)
  next
    case ne: False
    obtain act sel where
      g: "GetSelection env hist ''Add Recipient -'' (map (FormatKey env w c) ?kl) = (act, sel)"
      by (cases "GetSelection env hist ''Add Recipient -'' (map (FormatKey env w c) ?kl)") auto
    show ?thesis
    proof (cases "act = ''default'' \<or> act = ''show''")
      case False
      with ne Some g show ?thesis by (simp add: recipientsSelectForAdd_def Let_def)
    next
      case True
      with ne Some g show ?thesis
        by (cases "0 \<le> sel \<and> sel < int (length ?kl)")
           (auto simp: recipientsSelectForAdd_def index_def Let_def)
    qed
  qed
qed

lemma selectStore_quiet:
  "filter isWrite (fst (selectStore env sf)) = []
   \<and> filter isConfirm (fst (selectStore env sf)) = []"
  by (simp add: selectStore_def Let_def)

lemma commandSummary_loop:
  assumes "loopSummary 0 k ev2 lres" and "k \<le> len"
    and "filter isWrite ev = []" and "filter isConfirm ev = []"
  shows "\<And>f. lres = Inl f \<Longrightarrow> commandSummary len noKey (ev @ ev2) (Inl f)"
    and "\<And>m. lres = Inr m \<Longrightarrow> m < 1 \<Longrightarrow> commandSummary len noKey (ev @ ev2) (Inl noKey)"
    and "\<And>m g h. lres = Inr m \<Longrightarrow> \<not> m < 1 \<Longrightarrow>
           commandSummary len noKey (ev @ ev2 @ [EvGreen g, EvCyan h]) (Inr ())"
  using assms write_free [of ev]
  by (auto simp: loopSummary_def commandSummary_def commits_def)

lemma RecipientsAdd_summary:
  assumes "RecipientsAdd env w sf force args = (evs, w', res)"
  shows "commandSummary (if args = [] then 1 else length args) noKeyAdded evs res"
proof -
  let ?len = "if args = [] then 1 else length args"
  obtain ev0 store where ss: "selectStore env sf = (ev0, store)"
    by (cases "selectStore env sf") auto
  have q0: "filter isWrite ev0 = []" "filter isConfirm ev0 = []"
    using selectStore_quiet [of env sf] ss by simp_all
  obtain ev1 selected where
    sel: "(if length args < 1 then recipientsSelectForAdd env ev0 w store else ([], Inr args))
            = (ev1, selected)"
    by (cases "if length args < 1 then recipientsSelectForAdd env ev0 w store
               else ([], Inr args)") auto
  have q1: "filter isWrite ev1 = []" "filter isConfirm ev1 = []"
    using recipientsSelectForAdd_cases [of env ev0 w store] sel by (auto split: if_splits)
  have q: "filter isWrite (ev0 @ ev1) = []" "filter isConfirm (ev0 @ ev1) = []"
    using q0 q1 by simp_all
  show ?thesis
  proof (cases selected)
    case (Inl f)
    with ss sel assms have e: "evs = ev0 @ ev1" "res = Inl f"
      by (simp_all add: RecipientsAdd_def)
    from Inl sel recipientsSelectForAdd_cases [of env ev0 w store]
    have "f = Panic \<or> f = userAborted" by (auto split: if_splits)
    with e q show ?thesis by (auto simp: commandSummary_def)
  next
    case (Inr recipients)
    from Inr sel recipientsSelectForAdd_cases [of env ev0 w store]
    have len: "length recipients \<le> ?len" by (auto split: if_splits)
    obtain ev2 w2 lres where
      l: "addLoop env store (Crypto env w store) force (ev0 @ ev1) w 0 recipients
            = (ev2, w2, lres)"
      by (cases "addLoop env store (Crypto env w store) force (ev0 @ ev1) w 0 recipients") auto
    note ls = addLoop_summary [OF l]
    note cs = commandSummary_loop [OF ls len q, of _ noKeyAdded]
    show ?thesis
    proof (cases lres)
      case f: (Inl f)
      with ss sel Inr l assms have "evs = (ev0 @ ev1) @ ev2" "res = Inl f"
        by (simp_all add: RecipientsAdd_def)
      with cs(1) [OF f] show ?thesis by simp
    next
      case m: (Inr m)
      show ?thesis
      proof (cases "m < 1")
        case True
        with m ss sel Inr l assms have "evs = (ev0 @ ev1) @ ev2" "res = Inl noKeyAdded"
          by (simp_all add: RecipientsAdd_def)
        with cs(2) [OF m True] show ?thesis by simp
      next
        case False
        with m ss sel Inr l assms
        have "evs = (ev0 @ ev1) @ ev2
                 @ [EvGreen (CHR 0x0A # ''Added '' @ showNat m @ '' recipients''),
                    EvCyan (''You need to run '' @ quoted ''gopass sync''
                              @ '' to push these changes'')]"
          and "res = Inr ()"
          by (simp_all add: RecipientsAdd_def syncHint_def)
        with cs(3) [OF m False] show ?thesis by simp
      qed
    qed
  qed
qed

lemma RecipientsRemove_summary:
  assumes "RecipientsRemove env w sf force args = (evs, w', res)"
  shows "commandSummary (if args = [] then 1 else length args) noKeyRemoved evs res"
proof -
  let ?len = "if args = [] then 1 else length args"
  obtain ev0 store where ss: "selectStore env sf = (ev0, store)"
    by (cases "selectStore env sf") auto
  have q0: "filter isWrite ev0 = []" "filter isConfirm ev0 = []"
    using selectStore_quiet [of env sf] ss by simp_all
  obtain ev1 selected where
    sel: "(if length args < 1 then recipientsSelectForRemoval env ev0 w store
           else ([], Inr args)) = (ev1, selected)"
    by (cases "if length args < 1 then recipientsSelectForRemoval env ev0 w store
               else ([], Inr args)") auto
  have q1: "filter isWrite ev1 = []" "filter isConfirm ev1 = []"
    using recipientsSelectForRemoval_cases [of env ev0 w store] sel by (auto split: if_splits)
  have q: "filter isWrite (ev0 @ ev1) = []" "filter isConfirm (ev0 @ ev1) = []"
    using q0 q1 by simp_all
  show ?thesis
  proof (cases selected)
    case (Inl f)
    with ss sel assms have e: "evs = ev0 @ ev1" "res = Inl f"
      by (simp_all add: RecipientsRemove_def)
    from Inl sel recipientsSelectForRemoval_cases [of env ev0 w store]
    have "f = Panic \<or> f = userAborted" by (auto split: if_splits)
    with e q show ?thesis by (auto simp: commandSummary_def)
  next
    case (Inr recipients)
    from Inr sel recipientsSelectForRemoval_cases [of env ev0 w store]
    have len: "length recipients \<le> ?len" by (auto split: if_splits)
    obtain ev2 w2 lres where
      l: "removeLoop env store (Crypto env w store) force (ev0 @ ev1) w 0 recipients
            = (ev2, w2, lres)"
      by (cases "removeLoop env store (Crypto env w store) force (ev0 @ ev1) w 0 recipients")
         auto
    note ls = removeLoop_summary [OF l]
    note cs = commandSummary_loop [OF ls len q, of _ noKeyRemoved]
    show ?thesis
    proof (cases lres)
      case f: (Inl f)
      with ss sel Inr l assms have "evs = (ev0 @ ev1) @ ev2" "res = Inl f"
        by (simp_all add: RecipientsRemove_def)
      with cs(1) [OF f] show ?thesis by simp
    next
      case m: (Inr m)
      show ?thesis
      proof (cases "m < 1")
        case True
        with m ss sel Inr l assms have "evs = (ev0 @ ev1) @ ev2" "res = Inl noKeyRemoved"
          by (simp_all add: RecipientsRemove_def)
        with cs(2) [OF m True] show ?thesis by simp
      next
        case False
        with m ss sel Inr l assms
        have "evs = (ev0 @ ev1) @ ev2
                 @ [EvGreen (CHR 0x0A # ''Removed '' @ showNat m @ '' recipients''),
                    EvCyan (''You need to run '' @ quoted ''gopass sync''
                              @ '' to push these changes'')]"
          and "res = Inr ()"
          by (simp_all add: RecipientsRemove_def syncHint_def)
        with cs(3) [OF m False] show ?thesis by simp
      qed
    qed
  qed
qed

text \<open>
  C5, as the code has it: a command that returns no error made at least one successful
  change, and one that returns "no key added" (or "no key removed") made none. When the
  run had no nil backend, no escape from the selection and no change refused by the
  storage layer, the command fails with that error if it made no successful change and
  returns no error if it made one or more. (A change refused by the storage layer ends
  the command with the exit code of the recipients, whatever went through before.)
\<close>

theorem batch_result:
  "(RecipientsAdd env w sf force args = (evs, w', res) \<longrightarrow>
      (res = Inr () \<longrightarrow> 1 \<le> commits evs)
      \<and> (res = Inl noKeyAdded \<longrightarrow> commits evs = 0)
      \<and> (filter isFailedCommit evs = [] \<and> res \<noteq> Inl Panic \<and> res \<noteq> Inl userAborted \<longrightarrow>
           res = (if commits evs = 0 then Inl noKeyAdded else Inr ())))
   \<and> (RecipientsRemove env w sf force args = (evs, w', res) \<longrightarrow>
      (res = Inr () \<longrightarrow> 1 \<le> commits evs)
      \<and> (res = Inl noKeyRemoved \<longrightarrow> commits evs = 0)
      \<and> (filter isFailedCommit evs = [] \<and> res \<noteq> Inl Panic \<and> res \<noteq> Inl userAborted \<longrightarrow>
           res = (if commits evs = 0 then Inl noKeyRemoved else Inr ())))"
proof (rule conjI; rule impI)
  assume "RecipientsAdd env w sf force args = (evs, w', res)"
  from RecipientsAdd_summary [OF this]
  show "(res = Inr () \<longrightarrow> 1 \<le> commits evs)
      \<and> (res = Inl noKeyAdded \<longrightarrow> commits evs = 0)
      \<and> (filter isFailedCommit evs = [] \<and> res \<noteq> Inl Panic \<and> res \<noteq> Inl userAborted \<longrightarrow>
           res = (if commits evs = 0 then Inl noKeyAdded else Inr ()))"
    by (auto simp: commandSummary_def noKeyAdded_def userAborted_def split: if_splits)
next
  assume "RecipientsRemove env w sf force args = (evs, w', res)"
  from RecipientsRemove_summary [OF this]
  show "(res = Inr () \<longrightarrow> 1 \<le> commits evs)
      \<and> (res = Inl noKeyRemoved \<longrightarrow> commits evs = 0)
      \<and> (filter isFailedCommit evs = [] \<and> res \<noteq> Inl Panic \<and> res \<noteq> Inl userAborted \<longrightarrow>
           res = (if commits evs = 0 then Inl noKeyRemoved else Inr ()))"
    by (auto simp: commandSummary_def noKeyRemoved_def userAborted_def split: if_splits)
qed

text \<open>Four runs on the small store, and one in which the second change is refused.\<close>

lemma demoEnv_add_alice:
  "RecipientsAdd demoEnv [] ''vault'' False [''alice'']
     = ([EvConfirm (addPrompt demoEnv [] () ''FP:alice'' ''vault'') True,
         EvAdd ''vault'' ''FP:alice'' None,
         EvGreen (CHR 0x0A # ''Added '' @ showNat 1 @ '' recipients''), syncHint],
        [''FP:alice''], Inr ())"
  by (simp add: RecipientsAdd_def selectStore_def addStep_def resolveRecipient_def Let_def
      demoEnv_fields)

lemma demoEnv_add_nobody:
  "RecipientsAdd demoEnv [] ''vault'' False [''nobody'']
     = (noMatchWarning ''nobody'', [], Inl noKeyAdded)"
  by (simp add: RecipientsAdd_def selectStore_def addStep_def resolveRecipient_def Let_def
      demoEnv_fields)

lemma demoEnv_remove_command:
  "RecipientsRemove demoEnv [''FP:bob''] ''vault'' False [''bob'']
     = ([EvRemove ''vault'' ''FP:bob'' None, EvStdout (removalWarning ''bob''),
         EvGreen (CHR 0x0A # ''Removed '' @ showNat 1 @ '' recipients''), syncHint],
        [], Inr ())"
  by (simp add: RecipientsRemove_def selectStore_def removeStep_eq ownKey_def removeCommit_def
      resolveRecipient_def Let_def demoEnv_fields)

lemma demoEnv_remove_nobody:
  "RecipientsRemove demoEnv [''FP:bob''] ''vault'' False [''nobody'']
     = (noMatchWarning ''nobody'', [''FP:bob''], Inl noKeyRemoved)"
  by (simp add: RecipientsRemove_def selectStore_def removeStep_eq ownKey_def removeCommit_def
      resolveRecipient_def Let_def demoEnv_fields)

lemma demoEnv_add_refused:
  "RecipientsAdd demoEnv [] ''vault'' False [''alice'', ''bad'']
     = ([EvConfirm (addPrompt demoEnv [] () ''FP:alice'' ''vault'') True,
         EvAdd ''vault'' ''FP:alice'' None,
         EvConfirm (addPrompt demoEnv [''FP:alice''] () ''FP:bad'' ''vault'') True,
         EvAdd ''vault'' ''FP:bad'' (Some (Err ''disk full''))],
        [''FP:alice''],
        Inl (ExitError ExitRecipients (Some (Err ''disk full''))
               (''failed to add recipient '' @ quoted ''bad'' @ '': disk full'')))"
  by (simp add: RecipientsAdd_def selectStore_def addStep_def resolveRecipient_def Let_def
      demoEnv_fields)

theorem batch_result_witness:
  "snd (snd (RecipientsAdd demoEnv [] ''vault'' False [''alice''])) = Inr ()
   \<and> commits (fst (RecipientsAdd demoEnv [] ''vault'' False [''alice''])) = 1
   \<and> snd (snd (RecipientsAdd demoEnv [] ''vault'' False [''nobody''])) = Inl noKeyAdded
   \<and> commits (fst (RecipientsAdd demoEnv [] ''vault'' False [''nobody''])) = 0
   \<and> snd (snd (RecipientsRemove demoEnv [''FP:bob''] ''vault'' False [''bob''])) = Inr ()
   \<and> commits (fst (RecipientsRemove demoEnv [''FP:bob''] ''vault'' False [''bob''])) = 1
   \<and> snd (snd (RecipientsRemove demoEnv [''FP:bob''] ''vault'' False [''nobody'']))
       = Inl noKeyRemoved
   \<and> commits (fst (RecipientsRemove demoEnv [''FP:bob''] ''vault'' False [''nobody''])) = 0"
proof -
  have c: "commits (fst (RecipientsAdd demoEnv [] ''vault'' False [''alice''])) \<le> 1"
    and d: "commits (fst (RecipientsRemove demoEnv [''FP:bob''] ''vault'' False [''bob''])) \<le> 1"
    by (simp_all add: demoEnv_add_alice demoEnv_remove_command commits_def syncHint_def)
  from batch_result [of demoEnv "[]" "''vault''" False "[''alice'']" _ "[''FP:alice'']" "Inr ()"]
  have "1 \<le> commits (fst (RecipientsAdd demoEnv [] ''vault'' False [''alice'']))"
    by (simp add: demoEnv_add_alice)
  moreover
  from batch_result [of demoEnv "[]" "''vault''" False "[''nobody'']" _ "[]" "Inl noKeyAdded"]
  have "commits (fst (RecipientsAdd demoEnv [] ''vault'' False [''nobody''])) = 0"
    by (simp add: demoEnv_add_nobody)
  moreover
  from batch_result [of demoEnv "[''FP:bob'']" "''vault''" False "[''bob'']" _ "[]" "Inr ()"]
  have "1 \<le> commits (fst (RecipientsRemove demoEnv [''FP:bob''] ''vault'' False [''bob'']))"
    by (simp add: demoEnv_remove_command)
  moreover
  from batch_result [of demoEnv "[''FP:bob'']" "''vault''" False "[''nobody'']" _ "[''FP:bob'']"
      "Inl noKeyRemoved"]
  have "commits (fst (RecipientsRemove demoEnv [''FP:bob''] ''vault'' False [''nobody''])) = 0"
    by (simp add: demoEnv_remove_nobody)
  ultimately show ?thesis using c d
    by (simp add: demoEnv_add_alice demoEnv_add_nobody demoEnv_remove_command
        demoEnv_remove_nobody)
qed

text \<open>
  Adding \<open>alice\<close> and \<open>bad\<close>: the first change goes through, the second is refused by the
  storage layer, and the command fails although one change was made.
\<close>

theorem batch_result_counterexample:
  "commits (fst (RecipientsAdd demoEnv [] ''vault'' False [''alice'', ''bad''])) = 1
   \<and> snd (snd (RecipientsAdd demoEnv [] ''vault'' False [''alice'', ''bad'']))
       = Inl (ExitError ExitRecipients (Some (Err ''disk full''))
                (''failed to add recipient '' @ quoted ''bad'' @ '': disk full''))"
  by (simp add: demoEnv_add_refused commits_def)

text \<open>
  C9: a selection returns at most one recipient. With nothing to choose from it returns
  the empty list and no error, without asking; on the actions \<open>default\<close> and \<open>show\<close>
  it returns the one recipient at the chosen index, and on any other action the error
  "user aborted". A command called without recipients therefore makes at most one
  change to the recipient list and asks at most one confirmation.
\<close>

theorem interactive_selection:
  "(\<forall>xs. snd (recipientsSelectForRemoval env hist w store) = Inr xs \<longrightarrow> length xs \<le> 1)
   \<and> (\<forall>xs. snd (recipientsSelectForAdd env hist w store) = Inr xs \<longrightarrow> length xs \<le> 1)
   \<and> (ListRecipients env w store = [] \<longrightarrow>
        recipientsSelectForRemoval env hist w store = ([], Inr []))
   \<and> (Crypto env w store = Some c \<and> ListRecipients env w store \<noteq> []
        \<and> GetSelection env hist ''Remove recipient -''
              (map (FormatKey env w c) (ListRecipients env w store)) = (act, sel) \<longrightarrow>
        ((act = ''default'' \<or> act = ''show'')
            \<and> 0 \<le> sel \<and> sel < int (length (ListRecipients env w store)) \<longrightarrow>
           snd (recipientsSelectForRemoval env hist w store)
             = Inr [ListRecipients env w store ! nat sel])
        \<and> (act \<noteq> ''default'' \<and> act \<noteq> ''show'' \<longrightarrow>
             snd (recipientsSelectForRemoval env hist w store) = Inl userAborted))
   \<and> (Crypto env w store = Some c \<and> FindPublicKeys env w c [] = Inl e \<longrightarrow>
        recipientsSelectForAdd env hist w store = ([], Inr []))
   \<and> (Crypto env w store = Some c \<and> FindPublicKeys env w c [] = Inr kl
        \<and> GetSelection env hist ''Add Recipient -'' (map (FormatKey env w c) kl)
            = (acta, sela) \<longrightarrow>
        (kl = [] \<longrightarrow> recipientsSelectForAdd env hist w store = ([], Inr []))
        \<and> (kl \<noteq> [] \<and> (acta = ''default'' \<or> acta = ''show'')
              \<and> 0 \<le> sela \<and> sela < int (length kl) \<longrightarrow>
             snd (recipientsSelectForAdd env hist w store) = Inr [kl ! nat sela])
        \<and> (kl \<noteq> [] \<and> acta \<noteq> ''default'' \<and> acta \<noteq> ''show'' \<longrightarrow>
             snd (recipientsSelectForAdd env hist w store) = Inl userAborted))
   \<and> length (filter isWrite (fst (RecipientsAdd env w sf force []))) \<le> 1
   \<and> length (filter isConfirm (fst (RecipientsAdd env w sf force []))) \<le> 1
   \<and> length (filter isWrite (fst (RecipientsRemove env w sf force []))) \<le> 1
   \<and> length (filter isConfirm (fst (RecipientsRemove env w sf force []))) \<le> 1"
proof -
  have r1: "\<forall>xs. snd (recipientsSelectForRemoval env hist w store) = Inr xs \<longrightarrow> length xs \<le> 1"
    using recipientsSelectForRemoval_cases [of env hist w store] by auto
  have a1: "\<forall>xs. snd (recipientsSelectForAdd env hist w store) = Inr xs \<longrightarrow> length xs \<le> 1"
    using recipientsSelectForAdd_cases [of env hist w store] by auto
  have r2: "ListRecipients env w store = [] \<longrightarrow>
        recipientsSelectForRemoval env hist w store = ([], Inr [])"
    by (simp add: recipientsSelectForRemoval_def)
  have r3: "Crypto env w store = Some c \<and> ListRecipients env w store \<noteq> []
        \<and> GetSelection env hist ''Remove recipient -''
              (map (FormatKey env w c) (ListRecipients env w store)) = (act, sel) \<longrightarrow>
        ((act = ''default'' \<or> act = ''show'')
            \<and> 0 \<le> sel \<and> sel < int (length (ListRecipients env w store)) \<longrightarrow>
           snd (recipientsSelectForRemoval env hist w store)
             = Inr [ListRecipients env w store ! nat sel])
        \<and> (act \<noteq> ''default'' \<and> act \<noteq> ''show'' \<longrightarrow>
             snd (recipientsSelectForRemoval env hist w store) = Inl userAborted)"
    by (auto simp: recipientsSelectForRemoval_def index_def Let_def)
  have a2: "Crypto env w store = Some c \<and> FindPublicKeys env w c [] = Inl e \<longrightarrow>
        recipientsSelectForAdd env hist w store = ([], Inr [])"
    by (simp add: recipientsSelectForAdd_def)
  have a3: "Crypto env w store = Some c \<and> FindPublicKeys env w c [] = Inr kl
        \<and> GetSelection env hist ''Add Recipient -'' (map (FormatKey env w c) kl)
            = (acta, sela) \<longrightarrow>
        (kl = [] \<longrightarrow> recipientsSelectForAdd env hist w store = ([], Inr []))
        \<and> (kl \<noteq> [] \<and> (acta = ''default'' \<or> acta = ''show'')
              \<and> 0 \<le> sela \<and> sela < int (length kl) \<longrightarrow>
             snd (recipientsSelectForAdd env hist w store) = Inr [kl ! nat sela])
        \<and> (kl \<noteq> [] \<and> acta \<noteq> ''default'' \<and> acta \<noteq> ''show'' \<longrightarrow>
             snd (recipientsSelectForAdd env hist w store) = Inl userAborted)"
    by (auto simp: recipientsSelectForAdd_def index_def Let_def)
  have c1: "length (filter isWrite (fst (RecipientsAdd env w sf force []))) \<le> 1
      \<and> length (filter isConfirm (fst (RecipientsAdd env w sf force []))) \<le> 1"
    using RecipientsAdd_summary [of env w sf force "[]"
        "fst (RecipientsAdd env w sf force [])" "fst (snd (RecipientsAdd env w sf force []))"
        "snd (snd (RecipientsAdd env w sf force []))"]
    by (simp add: commandSummary_def)
  have c2: "length (filter isWrite (fst (RecipientsRemove env w sf force []))) \<le> 1
      \<and> length (filter isConfirm (fst (RecipientsRemove env w sf force []))) \<le> 1"
    using RecipientsRemove_summary [of env w sf force "[]"
        "fst (RecipientsRemove env w sf force [])"
        "fst (snd (RecipientsRemove env w sf force []))"
        "snd (snd (RecipientsRemove env w sf force []))"]
    by (simp add: commandSummary_def)
  from r1 a1 r2 r3 a2 a3 c1 c2 show ?thesis by blast
qed

theorem interactive_selection_witness:
  "ListRecipients demoEnv [] ''vault'' = []
   \<and> recipientsSelectForRemoval demoEnv [] [] ''vault'' = ([], Inr [])
   \<and> Crypto escapingEnv [''FP:bob''] ''vault'' = Some ()
   \<and> GetSelection escapingEnv [] ''Remove recipient -''
        (map (FormatKey escapingEnv [''FP:bob''] ()) (ListRecipients escapingEnv [''FP:bob''] ''vault''))
       = (''quit'', 0)
   \<and> snd (recipientsSelectForRemoval escapingEnv [] [''FP:bob''] ''vault'') = Inl userAborted
   \<and> Crypto demoEnv [] ''vault'' = Some ()
   \<and> FindPublicKeys demoEnv [] () [] = Inr [''alice'', ''bob'']
   \<and> GetSelection demoEnv [] ''Add Recipient -''
        (map (FormatKey demoEnv [] ()) [''alice'', ''bob'']) = (''default'', 0)
   \<and> snd (recipientsSelectForAdd demoEnv [] [] ''vault'') = Inr [''alice'']
   \<and> filter isWrite (fst (RecipientsAdd demoEnv [] ''vault'' False []))
       = [EvAdd ''vault'' ''FP:alice'' None]"
proof -
  have l: "ListRecipients demoEnv [] ''vault'' = []"
    and c1: "Crypto escapingEnv [''FP:bob''] ''vault'' = Some ()"
    and l1: "ListRecipients escapingEnv [''FP:bob''] ''vault'' \<noteq> []"
    and g1: "GetSelection escapingEnv [] ''Remove recipient -''
        (map (FormatKey escapingEnv [''FP:bob''] ())
           (ListRecipients escapingEnv [''FP:bob''] ''vault'')) = (''quit'', 0)"
    and c2: "Crypto demoEnv [] ''vault'' = Some ()"
    and f2: "FindPublicKeys demoEnv [] () [] = Inr [''alice'', ''bob'']"
    and g2: "GetSelection demoEnv [] ''Add Recipient -''
        (map (FormatKey demoEnv [] ()) [''alice'', ''bob'']) = (''default'', 0)"
    by (simp_all add: escapingEnv_def demoEnv_fields)
  from interactive_selection [where env = demoEnv and hist = "[]" and w = "[]"
      and store = "''vault''" and c = "()" and kl = "[''alice'', ''bob'']"
      and acta = "''default''" and sela = 0] l c2 f2 g2
  have "recipientsSelectForRemoval demoEnv [] [] ''vault'' = ([], Inr [])"
    and "snd (recipientsSelectForAdd demoEnv [] [] ''vault'') = Inr [''alice'']"
    by simp_all
  moreover
  from interactive_selection [where env = escapingEnv and hist = "[]" and w = "[''FP:bob'']"
      and store = "''vault''" and c = "()" and act = "''quit''" and sel = 0] c1 l1 g1
  have "snd (recipientsSelectForRemoval escapingEnv [] [''FP:bob''] ''vault'') = Inl userAborted"
    by simp
  moreover
  have "filter isWrite (fst (RecipientsAdd demoEnv [] ''vault'' False []))
       = [EvAdd ''vault'' ''FP:alice'' None]"
    by (simp add: RecipientsAdd_def selectStore_def recipientsSelectForAdd_def index_def
        addStep_def resolveRecipient_def syncHint_def Let_def demoEnv_fields)
  ultimately show ?thesis using l c1 g1 c2 f2 g2 by simp
qed

end
